theory Spec2Isabelle
  imports Complex_Main "HOL-Library.Word" "HOL-Library.Log_Nat"
begin

section \<open>The live session of \<^verbatim>\<open>src/components/LiveFeature.tsx\<close>\<close>

text \<open>
  The component \<^verbatim>\<open>LiveFeature\<close> keeps its state in React state variables and in refs,
  and every handler mutates them. The model is one record holding all of them, passed
  through each handler and returned updated. Calls into the browser (audio contexts, media
  streams, audio nodes, timers) and into the transport are recorded, in the order the
  handlers make them, in the field \<open>effects\<close>; every object the browser hands out is
  identified by a number taken from the counter \<open>fresh\<close>.

  Times (the output clock, buffer durations, the playback watermark) are JavaScript
  numbers: binary64 values, whose sums and quotients are rounded.
\<close>

subsection \<open>JavaScript strings\<close>

text \<open>A JavaScript string is a sequence of UTF-16 code units.\<close>

type_synonym js_string = "16 word list"

text \<open>
  \<^verbatim>\<open>String.prototype.trim\<close> removes leading and trailing white space and line
  terminators (ECMAScript: TAB, VT, FF, ZWNBSP, the space separators, LF, CR, LS, PS).
\<close>

definition isWhiteSpace :: "16 word \<Rightarrow> bool" where
  "isWhiteSpace c =
     (c = 0x0009 \<or> c = 0x000A \<or> c = 0x000B \<or> c = 0x000C \<or> c = 0x000D \<or> c = 0x0020 \<or>
      c = 0x00A0 \<or> c = 0x1680 \<or> (0x2000 \<le> c \<and> c \<le> 0x200A) \<or> c = 0x2028 \<or>
      c = 0x2029 \<or> c = 0x202F \<or> c = 0x205F \<or> c = 0x3000 \<or> c = 0xFEFF)"

definition trim :: "js_string \<Rightarrow> js_string" where
  "trim s = rev (dropWhile isWhiteSpace (rev (dropWhile isWhiteSpace s)))"

subsection \<open>JavaScript numbers\<close>

text \<open>
  A JavaScript number is an IEEE 754 binary64 value, and \<^verbatim>\<open>+\<close> and \<^verbatim>\<open>/\<close> give the exact
  result rounded to the nearest such value, ties to the even significand. The finite
  binary64 values are modelled as the reals they denote.

  \<open>rne\<close> rounds a real to the nearest integer, ties to even. \<open>ilog2\<close> is the binary
  exponent of a positive real, the integer \<open>k\<close> with \<open>2 powi k \<le> x < 2 powi (k + 1)\<close>.
  \<open>exponent64\<close> is the exponent of the last place of the binary64 values around \<open>x\<close>:
  53 significant bits, and no finer than \<open>2 powi - 1074\<close>, the spacing of the subnormal
  numbers. \<open>round64\<close> rounds a real to binary64.

  A result of magnitude \<open>2 ^ 1024\<close> or more is \<^verbatim>\<open>Infinity\<close> in JavaScript. The model has no
  such value: \<open>round64\<close> agrees with binary64 rounding on results below \<open>2 ^ 1024\<close>, and
  \<open>finite64\<close> picks out the finite binary64 numbers.
\<close>

definition rne :: "real \<Rightarrow> int" where
  "rne y = (let f = \<lfloor>y\<rfloor>; r = y - of_int f
            in if r < 1 / 2 then f else if 1 / 2 < r then f + 1 else if even f then f else f + 1)"

definition ilog2 :: "real \<Rightarrow> int" where
  "ilog2 x = (if 1 \<le> x then bitlen \<lfloor>x\<rfloor> - 1 else - bitlen (\<lceil>1 / x\<rceil> - 1))"

definition exponent64 :: "real \<Rightarrow> int" where
  "exponent64 x = max (ilog2 \<bar>x\<bar> - 52) (- 1074)"

definition round64 :: "real \<Rightarrow> real" where
  "round64 x =
     (if x = 0 then 0
      else sgn x * (of_int (rne (\<bar>x\<bar> / 2 powi exponent64 x)) * 2 powi exponent64 x))"

definition finite64 :: "real \<Rightarrow> bool" where
  "finite64 x = (round64 x = x \<and> \<bar>x\<bar> < 2 ^ 1024)"

text \<open>The binary64 sum \<^verbatim>\<open>x + y\<close> and quotient \<^verbatim>\<open>x / y\<close> of two numbers.\<close>

definition add64 :: "real \<Rightarrow> real \<Rightarrow> real" where
  "add64 x y = round64 (x + y)"

definition div64 :: "real \<Rightarrow> real \<Rightarrow> real" where
  "div64 x y = round64 (x / y)"

subsection \<open>Data\<close>

datatype status = Disconnected | Connecting | Connected

datatype role = User | Model

text \<open>\<^verbatim>\<open>interface TranscriptItem { role: 'user' | 'model'; text: string }\<close>\<close>

record TranscriptItem =
  item_role :: role
  item_text :: js_string

text \<open>
  A decoded \<^verbatim>\<open>AudioBuffer\<close>: its length in sample frames and its sample rate. The Web
  Audio API defines its \<^verbatim>\<open>duration\<close> as the quotient of the two, a binary64 division.
  The API has no buffer with sample rate 0; the quotient is 0 for one here.
\<close>

record AudioBuffer =
  buf_length :: nat
  buf_sampleRate :: nat

definition duration :: "AudioBuffer \<Rightarrow> real" where
  "duration b = div64 (real (buf_length b)) (real (buf_sampleRate b))"

text \<open>An \<^verbatim>\<open>AudioBufferSourceNode\<close>: the object's identity and the buffer it plays.\<close>

datatype source_node = SourceNode (node_id: nat) (node_buffer: AudioBuffer)

text \<open>The hidden \<^verbatim>\<open><video>\<close> element behind \<^verbatim>\<open>videoRef\<close>.\<close>

record video_element =
  srcObject :: "nat option"

text \<open>The calls the handlers make on the browser and on the transport.\<close>

datatype effect =
    NewAudioContext nat nat
  | CloseContext nat
  | GetUserMedia nat
  | GetDisplayMedia nat
  | StopTracks nat
  | ConnectLive nat
  | CreateMediaStreamSource nat
  | CreateScriptProcessor nat
  | DisconnectNode nat
  | SendAudio js_string
  | StartSource source_node real
  | StopSource source_node
  | SetInterval nat
  | ClearInterval nat

text \<open>
  The state of the component. The first block are the \<^verbatim>\<open>useState\<close> variables, the
  second the refs (\<open>None\<close> is \<^verbatim>\<open>null\<close>). \<open>outputCtx\<close> is the local variable of
  \<^verbatim>\<open>startSession\<close> that the \<^verbatim>\<open>onMessage\<close> closure captures; no ref holds it.
  \<open>closure_isMuted\<close> is the \<^verbatim>\<open>isMuted\<close> of the render whose \<^verbatim>\<open>startSession\<close> ran:
  \<^verbatim>\<open>isMuted\<close> is a \<^verbatim>\<open>const\<close> of each render, and the \<^verbatim>\<open>onaudioprocess\<close> closure
  created inside that \<^verbatim>\<open>startSession\<close> reads that binding for as long as it lives.
\<close>

record live =
  isConnected :: bool
  isMuted :: bool
  status :: status
  transcript :: "TranscriptItem list"
  showTranscript :: bool
  captionText :: js_string
  isScreenSharing :: bool
  videoRef :: "video_element option"
  audioContextRef :: "nat option"
  inputSourceRef :: "nat option"
  processorRef :: "nat option"
  streamRef :: "nat option"
  sessionPromiseRef :: "nat option"
  videoStreamRef :: "nat option"
  videoIntervalRef :: "nat option"
  canvasRef :: bool
  currentInputRef :: js_string
  currentOutputRef :: js_string
  nextStartTimeRef :: real
  sourcesRef :: "source_node list"
  outputCtx :: "nat option"
  closure_isMuted :: bool
  effects :: "effect list"
  fresh :: nat

text \<open>The component as first rendered and mounted (lines 13-44 and 299-300).\<close>

definition initial :: live where
  "initial = \<lparr> isConnected = False, isMuted = False, status = Disconnected, transcript = [],
     showTranscript = False, captionText = [], isScreenSharing = False,
     videoRef = Some \<lparr> srcObject = None \<rparr>, audioContextRef = None, inputSourceRef = None,
     processorRef = None, streamRef = None, sessionPromiseRef = None, videoStreamRef = None,
     videoIntervalRef = None, canvasRef = True, currentInputRef = [], currentOutputRef = [],
     nextStartTimeRef = 0, sourcesRef = [], outputCtx = None, closure_isMuted = False,
     effects = [], fresh = 0 \<rparr>"

text \<open>\<^verbatim>\<open>Set.prototype.add\<close> on a set kept in insertion order.\<close>

definition set_add :: "'a \<Rightarrow> 'a list \<Rightarrow> 'a list" where
  "set_add x xs = (if x \<in> set xs then xs else xs @ [x])"

subsection \<open>Teardown (lines 46-91)\<close>

text \<open>
  Each \<^verbatim>\<open>if (ref.current)\<close> is the test against \<^verbatim>\<open>null\<close>: the refs hold objects, and
  \<^verbatim>\<open>videoIntervalRef\<close> holds a timer id, which the browser makes positive. The numbers in
  the refs of the model are names of these objects and carry no truth value.
\<close>

definition stopScreenShare :: "live \<Rightarrow> live" where
  "stopScreenShare s =
     (let s1 = (case videoIntervalRef s of
                  Some i \<Rightarrow> s\<lparr> effects := effects s @ [ClearInterval i], videoIntervalRef := None \<rparr>
                | None \<Rightarrow> s);
          s2 = (case videoStreamRef s1 of
                  Some v \<Rightarrow> s1\<lparr> effects := effects s1 @ [StopTracks v], videoStreamRef := None \<rparr>
                | None \<Rightarrow> s1);
          s3 = (case videoRef s2 of
                  Some el \<Rightarrow> s2\<lparr> videoRef := Some (el\<lparr> srcObject := None \<rparr>) \<rparr>
                | None \<Rightarrow> s2)
      in s3\<lparr> isScreenSharing := False \<rparr>)"

definition cleanup :: "live \<Rightarrow> live" where
  "cleanup s =
     (let s1 = (case streamRef s of
                  Some m \<Rightarrow> s\<lparr> effects := effects s @ [StopTracks m], streamRef := None \<rparr>
                | None \<Rightarrow> s);
          s2 = (case processorRef s1 of
                  Some p \<Rightarrow> s1\<lparr> effects := effects s1 @ [DisconnectNode p], processorRef := None \<rparr>
                | None \<Rightarrow> s1);
          s3 = (case inputSourceRef s2 of
                  Some i \<Rightarrow> s2\<lparr> effects := effects s2 @ [DisconnectNode i], inputSourceRef := None \<rparr>
                | None \<Rightarrow> s2);
          s4 = (case audioContextRef s3 of
                  Some c \<Rightarrow> s3\<lparr> effects := effects s3 @ [CloseContext c], audioContextRef := None \<rparr>
                | None \<Rightarrow> s3);
          s5 = s4\<lparr> effects := effects s4 @ map StopSource (sourcesRef s4), sourcesRef := [] \<rparr>;
          s6 = stopScreenShare s5
      in s6\<lparr> isConnected := False, status := Disconnected, transcript := [], captionText := [],
             currentInputRef := [], currentOutputRef := [] \<rparr>)"

subsection \<open>Screen sharing (lines 93-164)\<close>

text \<open>
  \<^verbatim>\<open>toggleScreenShare\<close>; \<open>granted\<close> says whether \<^verbatim>\<open>getDisplayMedia\<close> resolves
  (\<open>False\<close>: it rejects and the \<^verbatim>\<open>catch\<close> block runs).
\<close>

definition toggleScreenShare :: "bool \<Rightarrow> live \<Rightarrow> live" where
  "toggleScreenShare granted s =
     (if \<not> isConnected s then s
      else if isScreenSharing s then stopScreenShare s
      else if \<not> granted then s\<lparr> isScreenSharing := False \<rparr>
      else
        let v = fresh s;
            s1 = s\<lparr> effects := effects s @ [GetDisplayMedia v], fresh := fresh s + 1,
                    videoStreamRef := Some v, isScreenSharing := True \<rparr>
        in (case videoRef s1 of
              Some el \<Rightarrow> s1\<lparr> videoRef := Some (el\<lparr> srcObject := Some v \<rparr>) \<rparr>
            | None \<Rightarrow> s1))"

text \<open>
  \<^verbatim>\<open>startVideoTransmission\<close>, run by the video element's \<^verbatim>\<open>onloadedmetadata\<close>. It
  installs the timer; the timer's callback (lines 142-163), which relays one frame, is not
  part of the model.
\<close>

definition startVideoTransmission :: "live \<Rightarrow> live" where
  "startVideoTransmission s =
     (if \<not> canvasRef s \<or> videoRef s = None then s
      else s\<lparr> effects := effects s @ [SetInterval (fresh s)], fresh := fresh s + 1,
              videoIntervalRef := Some (fresh s) \<rparr>)"

subsection \<open>Starting a session (lines 166-274)\<close>

text \<open>
  What the environment answers to \<^verbatim>\<open>startSession\<close>: everything succeeds, the microphone
  is refused (\<^verbatim>\<open>getUserMedia\<close> rejects), or \<^verbatim>\<open>connectLive\<close> throws. Both failures land
  in the \<^verbatim>\<open>catch\<close> block of lines 270-273.
\<close>

datatype start_outcome = Started | MicrophoneRefused | ConnectThrows

definition startSession :: "start_outcome \<Rightarrow> live \<Rightarrow> live" where
  "startSession outcome s =
     (let s1 = s\<lparr> status := Connecting, closure_isMuted := isMuted s \<rparr>;
          s2 = s1\<lparr> effects := effects s1 @ [NewAudioContext (fresh s1) 16000],
                   audioContextRef := Some (fresh s1), fresh := fresh s1 + 1 \<rparr>;
          s3 = s2\<lparr> effects := effects s2 @ [NewAudioContext (fresh s2) 24000],
                   outputCtx := Some (fresh s2), fresh := fresh s2 + 1 \<rparr>
      in if outcome = MicrophoneRefused then s3\<lparr> status := Disconnected \<rparr>
         else
           let s4 = s3\<lparr> effects := effects s3 @ [GetUserMedia (fresh s3)],
                        streamRef := Some (fresh s3), fresh := fresh s3 + 1 \<rparr>
           in if outcome = ConnectThrows then s4\<lparr> status := Disconnected \<rparr>
              else s4\<lparr> effects := effects s4 @ [ConnectLive (fresh s4)],
                       sessionPromiseRef := Some (fresh s4), fresh := fresh s4 + 1 \<rparr>)"

text \<open>The transport's \<^verbatim>\<open>onOpen\<close> callback (lines 179-203).\<close>

definition onOpen :: "live \<Rightarrow> live" where
  "onOpen s =
     s\<lparr> status := Connected, isConnected := True, captionText := [],
        effects := effects s @ [CreateMediaStreamSource (fresh s), CreateScriptProcessor (fresh s + 1)],
        inputSourceRef := Some (fresh s), processorRef := Some (fresh s + 1),
        fresh := fresh s + 2 \<rparr>"

text \<open>
  \<^verbatim>\<open>processor.onaudioprocess\<close> (lines 188-196). \<^verbatim>\<open>createPcmBlob\<close> lives in
  \<^verbatim>\<open>utils/audioUtils\<close>, which is not among the sources, and is a parameter. The
  \<^verbatim>\<open>isMuted\<close> the callback tests is the binding its closure captured.
\<close>

definition onaudioprocess :: "(real list \<Rightarrow> js_string) \<Rightarrow> live \<Rightarrow> real list \<Rightarrow> live" where
  "onaudioprocess createPcmBlob s inputData =
     (if closure_isMuted s then s
      else s\<lparr> effects := effects s @ [SendAudio (createPcmBlob inputData)] \<rparr>)"

text \<open>The mute button (line 363): \<^verbatim>\<open>setIsMuted(!isMuted)\<close>.\<close>

definition toggleMute :: "live \<Rightarrow> live" where
  "toggleMute s = s\<lparr> isMuted := \<not> isMuted s \<rparr>"

subsection \<open>Inbound messages (lines 204-260)\<close>

text \<open>
  The fields of a \<^verbatim>\<open>LiveServerMessage\<close> the handler reads, each behind optional chaining:
  \<^verbatim>\<open>serverContent.modelTurn.parts[0].inlineData.data\<close>,
  \<^verbatim>\<open>serverContent.outputTranscription.text\<close>, \<^verbatim>\<open>serverContent.inputTranscription.text\<close>,
  \<^verbatim>\<open>serverContent.turnComplete\<close> and \<^verbatim>\<open>serverContent.interrupted\<close>.
\<close>

record LiveServerMessage =
  inlineData :: "js_string option"
  outputTranscription :: "js_string option"
  inputTranscription :: "js_string option"
  turnComplete :: bool
  interrupted :: bool

text \<open>
  \<^verbatim>\<open>onMessage\<close> is an async function. It either runs to its end, or the awaited decoding
  throws and its promise rejects; the state it had written by then stays written.
\<close>

datatype handled = Resolved live | Rejected live

fun state_of :: "handled \<Rightarrow> live" where
  "state_of (Resolved s) = s"
| "state_of (Rejected s) = s"

text \<open>
  Lines 206-224. \<open>decodeAudio\<close> stands for \<^verbatim>\<open>decodeAudioData(decode(base64Audio), outputCtx, 24000, 1)\<close>;
  both functions live in \<^verbatim>\<open>utils/audioUtils\<close>, which is not among the sources, so the
  composition is a parameter: \<open>None\<close> when it throws. \<open>now\<close> is the value
  \<^verbatim>\<open>outputCtx.currentTime\<close> has when the handler reads it. The \<^verbatim>\<open>+=\<close> of line 222 is
  a binary64 addition.
\<close>

definition handleAudio :: "(js_string \<Rightarrow> AudioBuffer option) \<Rightarrow> real \<Rightarrow> live \<Rightarrow> LiveServerMessage \<Rightarrow> handled" where
  "handleAudio decodeAudio now s msg =
     (case inlineData msg of
        None \<Rightarrow> Resolved s
      | Some base64Audio \<Rightarrow>
          if base64Audio = [] then Resolved s
          else
            let s1 = s\<lparr> nextStartTimeRef := max (nextStartTimeRef s) now \<rparr> in
            (case decodeAudio base64Audio of
               None \<Rightarrow> Rejected s1
             | Some audioBuffer \<Rightarrow>
                 let source = SourceNode (fresh s1) audioBuffer in
                 Resolved (s1\<lparr> fresh := fresh s1 + 1,
                               effects := effects s1 @ [StartSource source (nextStartTimeRef s1)],
                               nextStartTimeRef := add64 (nextStartTimeRef s1) (duration audioBuffer),
                               sourcesRef := set_add source (sourcesRef s1) \<rparr>)))"

text \<open>The listener for \<^verbatim>\<open>ended\<close> that line 219 registers on each source.\<close>

definition sourceEnded :: "source_node \<Rightarrow> live \<Rightarrow> live" where
  "sourceEnded source s = s\<lparr> sourcesRef := removeAll source (sourcesRef s) \<rparr>"

text \<open>Lines 227-231.\<close>

definition handleOutputTranscription :: "LiveServerMessage \<Rightarrow> live \<Rightarrow> live" where
  "handleOutputTranscription msg s =
     (case outputTranscription msg of
        None \<Rightarrow> s
      | Some t \<Rightarrow>
          if t = [] then s
          else s\<lparr> currentOutputRef := currentOutputRef s @ t,
                  captionText := currentOutputRef s @ t \<rparr>)"

text \<open>Lines 232-235.\<close>

definition handleInputTranscription :: "LiveServerMessage \<Rightarrow> live \<Rightarrow> live" where
  "handleInputTranscription msg s =
     (case inputTranscription msg of
        None \<Rightarrow> s
      | Some t \<Rightarrow> if t = [] then s else s\<lparr> currentInputRef := currentInputRef s @ t \<rparr>)"

text \<open>Lines 237-251. A string is truthy when it is not empty.\<close>

definition newItems :: "js_string \<Rightarrow> js_string \<Rightarrow> TranscriptItem list" where
  "newItems input output =
     (if input \<noteq> [] then [\<lparr> item_role = User, item_text = input \<rparr>] else []) @
     (if output \<noteq> [] then [\<lparr> item_role = Model, item_text = output \<rparr>] else [])"

definition handleTurnComplete :: "LiveServerMessage \<Rightarrow> live \<Rightarrow> live" where
  "handleTurnComplete msg s =
     (if turnComplete msg then
        let input = trim (currentInputRef s);
            output = trim (currentOutputRef s);
            s1 = (if input \<noteq> [] \<or> output \<noteq> []
                  then s\<lparr> transcript := transcript s @ newItems input output \<rparr>
                  else s)
        in s1\<lparr> currentInputRef := [], currentOutputRef := [] \<rparr>
      else s)"

text \<open>Lines 253-259.\<close>

definition handleInterrupted :: "LiveServerMessage \<Rightarrow> live \<Rightarrow> live" where
  "handleInterrupted msg s =
     (if interrupted msg then
        s\<lparr> effects := effects s @ map StopSource (sourcesRef s), sourcesRef := [],
           nextStartTimeRef := 0, currentOutputRef := [], captionText := [] \<rparr>
      else s)"

definition onMessage :: "(js_string \<Rightarrow> AudioBuffer option) \<Rightarrow> real \<Rightarrow> live \<Rightarrow> LiveServerMessage \<Rightarrow> handled" where
  "onMessage decodeAudio now s msg =
     (case handleAudio decodeAudio now s msg of
        Rejected s' \<Rightarrow> Rejected s'
      | Resolved s1 \<Rightarrow>
          Resolved (handleInterrupted msg (handleTurnComplete msg
            (handleInputTranscription msg (handleOutputTranscription msg s1)))))"

text \<open>
  The transport calls \<^verbatim>\<open>onMessage\<close> once per message, in arrival order and whatever
  became of the promise of the call before. Each message comes with the reading of the
  output clock at its arrival.
\<close>

fun onMessages :: "(js_string \<Rightarrow> AudioBuffer option) \<Rightarrow> live \<Rightarrow> (real \<times> LiveServerMessage) list \<Rightarrow> live" where
  "onMessages decodeAudio s [] = s"
| "onMessages decodeAudio s ((now, msg) # rest) =
     onMessages decodeAudio (state_of (onMessage decodeAudio now s msg)) rest"

subsection \<open>The capture callback and the mute button over time\<close>

text \<open>
  What happens to a connected session on the capture side: the audio subsystem calls
  \<^verbatim>\<open>onaudioprocess\<close> with a buffer of samples, or the user presses the mute button.
\<close>

datatype capture_event = Capture "real list" | ToggleMute

fun capture_run :: "(real list \<Rightarrow> js_string) \<Rightarrow> live \<Rightarrow> capture_event list \<Rightarrow> live" where
  "capture_run createPcmBlob s [] = s"
| "capture_run createPcmBlob s (Capture inputData # rest) =
     capture_run createPcmBlob (onaudioprocess createPcmBlob s inputData) rest"
| "capture_run createPcmBlob s (ToggleMute # rest) = capture_run createPcmBlob (toggleMute s) rest"

text \<open>The buffers captured, in order, and how many of them were captured while muted.\<close>

fun captured :: "capture_event list \<Rightarrow> real list list" where
  "captured [] = []"
| "captured (Capture inputData # rest) = inputData # captured rest"
| "captured (ToggleMute # rest) = captured rest"

fun muted_cycles :: "bool \<Rightarrow> capture_event list \<Rightarrow> nat" where
  "muted_cycles muted [] = 0"
| "muted_cycles muted (Capture inputData # rest) = (if muted then 1 else 0) + muted_cycles muted rest"
| "muted_cycles muted (ToggleMute # rest) = muted_cycles (\<not> muted) rest"

section \<open>Observations\<close>

text \<open>The functions of this section read states and effect lists; the source has no counterpart.\<close>

text \<open>The effects added between two states.\<close>

definition new_effects :: "live \<Rightarrow> live \<Rightarrow> effect list" where
  "new_effects s s' = drop (length (effects s)) (effects s')"

text \<open>The text an optional transcription field carries.\<close>

definition text_of :: "js_string option \<Rightarrow> js_string" where
  "text_of t = (case t of None \<Rightarrow> [] | Some x \<Rightarrow> x)"

text \<open>
  The message records one accumulation gives at a turn-complete: none when it is empty or
  all white space, else one with the trimmed text.
\<close>

definition finalized :: "role \<Rightarrow> js_string \<Rightarrow> TranscriptItem list" where
  "finalized r acc =
     (if list_all isWhiteSpace acc then [] else [\<lparr> item_role = r, item_text = trim acc \<rparr>])"

text \<open>The playback schedule: start time and duration of every buffer started, in order.\<close>

fun scheduled :: "effect list \<Rightarrow> (real \<times> real) list" where
  "scheduled [] = []"
| "scheduled (StartSource source t # es) = (t, duration (node_buffer source)) # scheduled es"
| "scheduled (e # es) = scheduled es"

text \<open>The part of the schedule that processing \<open>msgs\<close> from \<open>s\<close> adds.\<close>

definition scheduled_by :: "(js_string \<Rightarrow> AudioBuffer option) \<Rightarrow> live \<Rightarrow> (real \<times> LiveServerMessage) list \<Rightarrow> (real \<times> real) list" where
  "scheduled_by decodeAudio s msgs =
     drop (length (scheduled (effects s))) (scheduled (effects (onMessages decodeAudio s msgs)))"

text \<open>
  A schedule continues a watermark \<open>w\<close> when every buffer starts at a binary64 number no
  earlier than the watermark left by the one before it, the binary64 sum of its start and
  duration; \<open>chain_end\<close> is the watermark it leaves.
\<close>

fun chain :: "real \<Rightarrow> (real \<times> real) list \<Rightarrow> bool" where
  "chain w [] = True"
| "chain w ((t, d) # rest) = (w \<le> t \<and> round64 t = t \<and> 0 \<le> d \<and> chain (add64 t d) rest)"

fun chain_end :: "real \<Rightarrow> (real \<times> real) list \<Rightarrow> real" where
  "chain_end w [] = w"
| "chain_end w ((t, d) # rest) = chain_end (add64 t d) rest"

text \<open>The messages sent to the transport by the capture callback.\<close>

fun sent_audio :: "effect list \<Rightarrow> js_string list" where
  "sent_audio [] = []"
| "sent_audio (SendAudio blob # es) = blob # sent_audio es"
| "sent_audio (e # es) = sent_audio es"

text \<open>The sources stopped, in order.\<close>

fun stopped :: "effect list \<Rightarrow> source_node list" where
  "stopped [] = []"
| "stopped (StopSource source # es) = source # stopped es"
| "stopped (e # es) = stopped es"

text \<open>
  The handles the refs hold, in the order teardown visits them, the handle an effect
  releases, and how often a handle is released in an effect list.
\<close>

fun handle_list :: "nat option \<Rightarrow> nat list" where
  "handle_list None = []"
| "handle_list (Some h) = [h]"

definition held :: "live \<Rightarrow> nat list" where
  "held s = handle_list (streamRef s) @ handle_list (processorRef s) @ handle_list (inputSourceRef s)
      @ handle_list (audioContextRef s) @ map node_id (sourcesRef s)
      @ handle_list (videoIntervalRef s) @ handle_list (videoStreamRef s)"

fun releases :: "effect \<Rightarrow> nat option" where
  "releases (StopTracks h) = Some h"
| "releases (DisconnectNode h) = Some h"
| "releases (CloseContext h) = Some h"
| "releases (ClearInterval h) = Some h"
| "releases (StopSource source) = Some (node_id source)"
| "releases e = None"

definition release_count :: "nat \<Rightarrow> effect list \<Rightarrow> nat" where
  "release_count h es = length (filter (\<lambda>e. releases e = Some h) es)"

text \<open>
  Every handle the refs hold is held once and was handed out before: it is below the
  counter.
\<close>

definition handles_fresh :: "live \<Rightarrow> bool" where
  "handles_fresh s = (distinct (held s) \<and> list_all (\<lambda>h. h < fresh s) (held s))"

text \<open>The calls one run of \<open>cleanup\<close> makes, read off the refs it starts from.\<close>

definition teardown_effects :: "live \<Rightarrow> effect list" where
  "teardown_effects s =
     map StopTracks (handle_list (streamRef s)) @ map DisconnectNode (handle_list (processorRef s))
     @ map DisconnectNode (handle_list (inputSourceRef s))
     @ map CloseContext (handle_list (audioContextRef s))
     @ map StopSource (sourcesRef s) @ map ClearInterval (handle_list (videoIntervalRef s))
     @ map StopTracks (handle_list (videoStreamRef s))"

text \<open>The audio contexts created and not closed.\<close>

fun created_contexts :: "effect list \<Rightarrow> nat list" where
  "created_contexts [] = []"
| "created_contexts (NewAudioContext c rate # es) = c # created_contexts es"
| "created_contexts (e # es) = created_contexts es"

definition open_contexts :: "effect list \<Rightarrow> nat list" where
  "open_contexts es = filter (\<lambda>c. CloseContext c \<notin> set es) (created_contexts es)"

section \<open>Example inputs\<close>

text \<open>
  A decoder for the worked examples: a chunk that starts with \<^verbatim>\<open>!\<close> is malformed, any
  other decodes to half a second of audio at 24 kHz per code unit.
\<close>

definition example_decodeAudio :: "js_string \<Rightarrow> AudioBuffer option" where
  "example_decodeAudio base64Audio =
     (case base64Audio of
        [] \<Rightarrow> None
      | c # _ \<Rightarrow> if c = 0x21 then None
                 else Some \<lparr> buf_length = 12000 * length base64Audio, buf_sampleRate = 24000 \<rparr>)"

text \<open>A decoder that makes a tenth of a second of audio at 24 kHz of every chunk.\<close>

definition tenth_decodeAudio :: "js_string \<Rightarrow> AudioBuffer option" where
  "tenth_decodeAudio base64Audio = Some \<lparr> buf_length = 2400, buf_sampleRate = 24000 \<rparr>"

text \<open>Messages that carry a single event.\<close>

definition input_delta :: "js_string \<Rightarrow> LiveServerMessage" where
  "input_delta t = \<lparr> inlineData = None, outputTranscription = None, inputTranscription = Some t,
     turnComplete = False, interrupted = False \<rparr>"

definition output_delta :: "js_string \<Rightarrow> LiveServerMessage" where
  "output_delta t = \<lparr> inlineData = None, outputTranscription = Some t, inputTranscription = None,
     turnComplete = False, interrupted = False \<rparr>"

definition turn_complete_event :: LiveServerMessage where
  "turn_complete_event = \<lparr> inlineData = None, outputTranscription = None,
     inputTranscription = None, turnComplete = True, interrupted = False \<rparr>"

definition audio_chunk :: "js_string \<Rightarrow> LiveServerMessage" where
  "audio_chunk base64Audio = \<lparr> inlineData = Some base64Audio, outputTranscription = None,
     inputTranscription = None, turnComplete = False, interrupted = False \<rparr>"

text \<open>Six audio chunks, all arriving at clock reading 0.\<close>

definition six_chunks :: "(real \<times> LiveServerMessage) list" where
  "six_chunks = [(0, audio_chunk [0x41]), (0, audio_chunk [0x41]), (0, audio_chunk [0x41]),
     (0, audio_chunk [0x41]), (0, audio_chunk [0x41]), (0, audio_chunk [0x41])]"

text \<open>A session that has connected: \<^verbatim>\<open>startSession\<close> succeeded and \<^verbatim>\<open>onOpen\<close> ran.\<close>

definition connected_session :: live where
  "connected_session = onOpen (startSession Started initial)"

text \<open>The same session sharing the screen, with one buffer scheduled for playback.\<close>

definition busy_session :: live where
  "busy_session = state_of (onMessage example_decodeAudio 0
     (startVideoTransmission (toggleScreenShare True connected_session)) (audio_chunk [0x41]))"

section \<open>Properties\<close>

subsection \<open>Rounding to binary64\<close>

lemmas number_defs = add64_def div64_def round64_def exponent64_def ilog2_def rne_def
  compute_bitlen Let_def

lemma rne_of_int: "rne (of_int n) = n"
  by (simp add: rne_def)

lemma rne_lower: "\<lfloor>y\<rfloor> \<le> rne y"
  by (simp add: rne_def Let_def)

lemma rne_upper: "rne y \<le> \<lfloor>y\<rfloor> + 1"
  by (simp add: rne_def Let_def)

lemma rne_mono:
  assumes "x \<le> y"
  shows "rne x \<le> rne y"
proof (cases "\<lfloor>x\<rfloor> = \<lfloor>y\<rfloor>")
  case True
  with assms have "x - of_int \<lfloor>x\<rfloor> \<le> y - of_int \<lfloor>y\<rfloor>" by simp
  with True show ?thesis by (auto simp: rne_def Let_def)
next
  case False
  with assms have "\<lfloor>x\<rfloor> < \<lfloor>y\<rfloor>" using floor_mono[of x y] by linarith
  then have "rne x \<le> \<lfloor>y\<rfloor>" using rne_upper[of x] by linarith
  also have "\<dots> \<le> rne y" by (rule rne_lower)
  finally show ?thesis .
qed

lemma rne_ge_int: "of_int n \<le> y \<Longrightarrow> n \<le> rne y"
  using rne_mono[of "of_int n" y] by (simp add: rne_of_int)

lemma rne_le_int: "y \<le> of_int n \<Longrightarrow> rne y \<le> n"
  using rne_mono[of y "of_int n"] by (simp add: rne_of_int)

lemma bitlen_pos: "0 < n \<Longrightarrow> 1 \<le> bitlen n"
  using bitlen_eq_zero_iff[of n] bitlen_nonneg[of n] by linarith

lemma pow2_mono: "a \<le> b \<Longrightarrow> (2::real) powi a \<le> 2 powi b"
  by (rule power_int_increasing) simp_all

lemma pow2_add: "(2::real) powi (a + b) = 2 powi a * 2 powi b"
  by (rule power_int_add) simp

lemma ilog2_bounds:
  assumes "0 < x"
  shows "2 powi ilog2 x \<le> x" and "x < 2 powi (ilog2 x + 1)"
proof -
  have "2 powi ilog2 x \<le> x \<and> x < 2 powi (ilog2 x + 1)"
  proof (cases "1 \<le> x")
    case True
    define n where "n = \<lfloor>x\<rfloor>"
    define k where "k = bitlen n"
    from True have n: "0 < n" by (simp add: n_def)
    then have k: "1 \<le> k" unfolding k_def by (rule bitlen_pos)
    from bitlen_bounds[OF n] have b: "2 ^ nat (k - 1) \<le> n" "n < 2 ^ nat k"
      by (simp_all add: k_def)
    have i: "ilog2 x = k - 1" using True by (simp add: ilog2_def k_def n_def)
    have "(2::real) powi (k - 1) = 2 ^ nat (k - 1)" using k by (simp add: power_int_nonneg_exp)
    also have "\<dots> = of_int (2 ^ nat (k - 1))" by simp
    also have "\<dots> \<le> of_int n" using b(1) by (simp only: of_int_le_iff)
    also have "\<dots> \<le> x" by (simp add: n_def)
    finally have lo: "2 powi (k - 1) \<le> x" .
    have "x < of_int n + 1" by (simp add: n_def)
    also have "\<dots> = of_int (n + 1)" by simp
    also have "\<dots> \<le> of_int (2 ^ nat k)"
    proof -
      from b(2) have "n + 1 \<le> 2 ^ nat k" by simp
      then show ?thesis by (simp only: of_int_le_iff)
    qed
    also have "\<dots> = (2::real) ^ nat k" by simp
    also have "\<dots> = 2 powi k" using k by (simp add: power_int_nonneg_exp)
    finally have hi: "x < 2 powi k" .
    from lo hi i show ?thesis by simp
  next
    case False
    define y where "y = 1 / x"
    define m where "m = \<lceil>y\<rceil> - 1"
    define k where "k = bitlen m"
    from False assms have y: "1 < y" by (simp add: y_def)
    then have "1 < \<lceil>y\<rceil>" by (simp add: less_ceiling_iff)
    then have m: "0 < m" by (simp add: m_def)
    then have k: "1 \<le> k" unfolding k_def by (rule bitlen_pos)
    from bitlen_bounds[OF m] have b: "2 ^ nat (k - 1) \<le> m" "m < 2 ^ nat k"
      by (simp_all add: k_def)
    have i: "ilog2 x = - k" using False by (simp add: ilog2_def k_def m_def y_def)
    have x: "x = 1 / y" using assms by (simp add: y_def)
    have "y \<le> of_int \<lceil>y\<rceil>" by simp
    also have "\<dots> = of_int (m + 1)" by (simp add: m_def)
    also have "\<dots> \<le> of_int (2 ^ nat k)"
    proof -
      from b(2) have "m + 1 \<le> 2 ^ nat k" by simp
      then show ?thesis by (simp only: of_int_le_iff)
    qed
    also have "\<dots> = (2::real) ^ nat k" by simp
    finally have "y \<le> 2 ^ nat k" .
    then have "1 / 2 ^ nat k \<le> 1 / y" using y by (simp add: frac_le)
    moreover have "(2::real) powi (- k) = 1 / 2 ^ nat k"
      using k by (simp add: power_int_minus_divide power_int_nonneg_exp)
    ultimately have lo: "2 powi (- k) \<le> x" using x by simp
    have "(2::real) ^ nat (k - 1) = of_int (2 ^ nat (k - 1))" by simp
    also have "\<dots> \<le> of_int m" using b(1) by (simp only: of_int_le_iff)
    also have "\<dots> < y"
    proof -
      have "of_int \<lceil>y\<rceil> - 1 < y" by linarith
      then show ?thesis by (simp add: m_def)
    qed
    finally have "2 ^ nat (k - 1) < y" .
    then have "1 / y < 1 / 2 ^ nat (k - 1)" by (simp add: frac_less2)
    moreover have "(2::real) powi (- k + 1) = 1 / 2 ^ nat (k - 1)"
    proof -
      have "- k + 1 = - (k - 1)" by simp
      then show ?thesis
        using k by (simp only: power_int_minus_divide) (simp add: power_int_nonneg_exp)
    qed
    ultimately have hi: "x < 2 powi (- k + 1)" using x by simp
    from lo hi i show ?thesis by simp
  qed
  then show "2 powi ilog2 x \<le> x" and "x < 2 powi (ilog2 x + 1)" by simp_all
qed

lemma ilog2_mono:
  assumes "0 < x" and "x \<le> y"
  shows "ilog2 x \<le> ilog2 y"
proof (rule ccontr)
  assume "\<not> ilog2 x \<le> ilog2 y"
  then have "ilog2 y + 1 \<le> ilog2 x" by simp
  then have "(2::real) powi (ilog2 y + 1) \<le> 2 powi ilog2 x" by (rule pow2_mono)
  moreover from assms have "0 < y" by simp
  then have "y < 2 powi (ilog2 y + 1)" by (rule ilog2_bounds(2))
  moreover have "2 powi ilog2 x \<le> x" using assms(1) by (rule ilog2_bounds(1))
  ultimately show False using assms(2) by linarith
qed

lemma ilog2_less:
  assumes "0 < r" and "r < 2 powi k"
  shows "ilog2 r < k"
proof (rule ccontr)
  assume "\<not> ilog2 r < k"
  then have "k \<le> ilog2 r" by simp
  then have "(2::real) powi k \<le> 2 powi ilog2 r" by (rule pow2_mono)
  with ilog2_bounds(1)[OF assms(1)] assms(2) show False by linarith
qed

lemma ilog2_ge:
  assumes "0 < r" and "2 powi k \<le> r"
  shows "k \<le> ilog2 r"
proof (rule ccontr)
  assume "\<not> k \<le> ilog2 r"
  then have "ilog2 r + 1 \<le> k" by simp
  then have "(2::real) powi (ilog2 r + 1) \<le> 2 powi k" by (rule pow2_mono)
  with ilog2_bounds(2)[OF assms(1)] assms(2) show False by linarith
qed

lemma exponent64_lower: "- 1074 \<le> exponent64 x"
  by (simp add: exponent64_def)

lemma exponent64_uminus: "exponent64 (- x) = exponent64 x"
  by (simp add: exponent64_def)

lemma exponent64_mono: "0 < x \<Longrightarrow> x \<le> y \<Longrightarrow> exponent64 x \<le> exponent64 y"
  using ilog2_mono[of x y] by (simp add: exponent64_def)

lemma quot_upper:
  assumes "0 < x"
  shows "x / 2 powi exponent64 x < 2 ^ 53"
proof -
  have "ilog2 x + 1 \<le> exponent64 x + 53" using assms by (simp add: exponent64_def)
  then have "(2::real) powi (ilog2 x + 1) \<le> 2 powi (exponent64 x + 53)" by (rule pow2_mono)
  with ilog2_bounds(2)[OF assms] have "x < 2 powi (exponent64 x + 53)" by linarith
  also have "\<dots> = 2 powi exponent64 x * 2 ^ 53" by (simp add: pow2_add)
  finally show ?thesis by (simp add: pos_divide_less_eq mult.commute)
qed

lemma quot_lower:
  assumes "0 < x" and "- 1074 < exponent64 x"
  shows "2 ^ 52 \<le> x / 2 powi exponent64 x"
proof -
  from assms have e: "exponent64 x + 52 = ilog2 x"
    by (simp add: exponent64_def max_def split: if_splits)
  have "2 powi exponent64 x * 2 ^ 52 = (2::real) powi (exponent64 x + 52)"
    by (simp add: pow2_add)
  also have "\<dots> \<le> x" unfolding e using assms(1) by (rule ilog2_bounds(1))
  finally show ?thesis by (simp add: pos_le_divide_eq mult.commute)
qed

lemma rne_quot_upper: "0 < x \<Longrightarrow> rne (x / 2 powi exponent64 x) \<le> 2 ^ 53"
  using quot_upper[of x] by (intro rne_le_int) simp

lemma rne_quot_lower:
  "0 < x \<Longrightarrow> - 1074 < exponent64 x \<Longrightarrow> 2 ^ 52 \<le> rne (x / 2 powi exponent64 x)"
  using quot_lower[of x] by (intro rne_ge_int) simp

lemma round64_pos:
  "0 < x \<Longrightarrow> round64 x = of_int (rne (x / 2 powi exponent64 x)) * 2 powi exponent64 x"
  by (simp add: round64_def)

lemma round64_zero: "round64 0 = 0"
  by (simp add: round64_def)

lemma round64_uminus: "round64 (- x) = - round64 x"
  by (simp add: round64_def exponent64_uminus sgn_minus)

lemma round64_nonneg: "0 \<le> x \<Longrightarrow> 0 \<le> round64 x"
proof (cases "x = 0")
  case True
  then show ?thesis by (simp add: round64_zero)
next
  case False
  assume "0 \<le> x"
  with False have x: "0 < x" by simp
  then have "0 \<le> x / 2 powi exponent64 x" by simp
  then have "0 \<le> rne (x / 2 powi exponent64 x)" using rne_ge_int[of 0] by simp
  then show ?thesis using x by (simp add: round64_pos)
qed

lemma round64_mono_pos:
  assumes "0 < x" and "x \<le> y"
  shows "round64 x \<le> round64 y"
proof -
  from assms have y: "0 < y" by simp
  let ?ex = "exponent64 x" and ?ey = "exponent64 y"
  have le: "?ex \<le> ?ey" using assms by (rule exponent64_mono)
  show ?thesis
  proof (cases "?ex = ?ey")
    case True
    from assms have "x / 2 powi ?ex \<le> y / 2 powi ?ex" by (simp add: divide_right_mono)
    then have "rne (x / 2 powi ?ex) \<le> rne (y / 2 powi ?ex)" by (rule rne_mono)
    then have "real_of_int (rne (x / 2 powi ?ex)) * 2 powi ?ex
                 \<le> real_of_int (rne (y / 2 powi ?ex)) * 2 powi ?ex"
      by (intro mult_right_mono) simp_all
    then show ?thesis using True by (simp add: round64_pos assms(1) y)
  next
    case False
    have "- 1074 \<le> ?ex" by (rule exponent64_lower)
    with False le have lt: "?ex + 1 \<le> ?ey" and ey: "- 1074 < ?ey"
      by linarith+
    have "rne (x / 2 powi ?ex) \<le> 2 ^ 53" using assms(1) by (rule rne_quot_upper)
    then have "real_of_int (rne (x / 2 powi ?ex)) \<le> 2 ^ 53"
      by (metis of_int_le_iff of_int_numeral of_int_power)
    then have "round64 x \<le> 2 ^ 53 * 2 powi ?ex"
      by (simp add: round64_pos assms(1) mult_right_mono)
    also have "\<dots> = 2 ^ 52 * 2 powi (?ex + 1)" by (simp add: pow2_add)
    also have "\<dots> \<le> 2 ^ 52 * 2 powi ?ey" using pow2_mono[OF lt] by simp
    also have "\<dots> \<le> round64 y"
    proof -
      have "2 ^ 52 \<le> rne (y / 2 powi ?ey)" using y ey by (rule rne_quot_lower)
      then have "2 ^ 52 \<le> real_of_int (rne (y / 2 powi ?ey))"
        by (metis of_int_le_iff of_int_numeral of_int_power)
      then show ?thesis by (simp add: round64_pos y mult_right_mono)
    qed
    finally show ?thesis .
  qed
qed

text \<open>Rounding keeps the order.\<close>

lemma round64_mono:
  assumes "x \<le> y"
  shows "round64 x \<le> round64 y"
proof -
  consider "0 < x" | "x \<le> 0" "0 \<le> y" | "y < 0" using assms by linarith
  then show ?thesis
  proof cases
    case 1
    then show ?thesis using assms by (rule round64_mono_pos)
  next
    case 2
    from 2(1) have "0 \<le> round64 (- x)" by (intro round64_nonneg) simp
    then have "round64 x \<le> 0" by (simp add: round64_uminus)
    also have "0 \<le> round64 y" using 2(2) by (rule round64_nonneg)
    finally show ?thesis .
  next
    case 3
    then have "0 < - y" "- y \<le> - x" using assms by simp_all
    then have "round64 (- y) \<le> round64 (- x)" by (rule round64_mono_pos)
    then show ?thesis by (simp add: round64_uminus)
  qed
qed

lemma round64_idem_pos:
  assumes "0 < x"
  shows "round64 (round64 x) = round64 x"
proof -
  define e where "e = exponent64 x"
  define m where "m = rne (x / 2 powi e)"
  define r where "r = real_of_int m * 2 powi e"
  have r: "round64 x = r" using assms by (simp add: round64_pos r_def m_def e_def)
  have e: "- 1074 \<le> e" unfolding e_def by (rule exponent64_lower)
  have m53: "m \<le> 2 ^ 53" unfolding m_def e_def using assms by (rule rne_quot_upper)
  have "0 \<le> x / 2 powi e" using assms by simp
  then have m0: "0 \<le> m" unfolding m_def using rne_ge_int[of 0] by simp
  show ?thesis
  proof (cases "m = 0")
    case True
    then show ?thesis unfolding r by (simp add: r_def round64_zero)
  next
    case False
    with m0 have mpos: "0 < m" by simp
    then have rpos: "0 < r" by (simp add: r_def)
    show ?thesis
    proof (cases "m = 2 ^ 53")
      case True
      have r2: "r = 2 powi (e + 53)" by (simp add: r_def True pow2_add)
      have up: "r < 2 powi (e + 53 + 1)"
        unfolding r2 by (rule power_int_strict_increasing) simp_all
      have lo: "2 powi (e + 53) \<le> r" by (simp add: r2)
      from rpos up have "ilog2 r < e + 53 + 1" by (rule ilog2_less)
      moreover from rpos lo have "e + 53 \<le> ilog2 r" by (rule ilog2_ge)
      ultimately have "ilog2 r = e + 53" by simp
      then have e': "exponent64 r = e + 1" using e rpos by (simp add: exponent64_def)
      have "r / 2 powi (e + 1) = 2 ^ 52" by (simp add: r2 pow2_add)
      also have "\<dots> = real_of_int (2 ^ 52)" by simp
      finally have q: "r / 2 powi (e + 1) = real_of_int (2 ^ 52)" .
      have "round64 r = real_of_int (2 ^ 52) * 2 powi (e + 1)"
        using rpos by (simp only: round64_pos e' q rne_of_int)
      also have "\<dots> = r" by (simp add: r2 pow2_add)
      finally show ?thesis unfolding r .
    next
      case False
      with m53 have "m < 2 ^ 53" by simp
      then have "real_of_int m < 2 ^ 53"
        by (metis of_int_less_iff of_int_numeral of_int_power)
      then have "r < 2 ^ 53 * 2 powi e" by (simp add: r_def)
      also have "\<dots> = 2 powi (e + 53)" by (simp add: pow2_add)
      finally have "ilog2 r < e + 53" using rpos by (intro ilog2_less)
      moreover have "- 1074 < e \<Longrightarrow> e + 52 \<le> ilog2 r"
      proof -
        assume "- 1074 < e"
        then have "2 ^ 52 \<le> m" unfolding m_def e_def using assms by (intro rne_quot_lower)
        then have "2 ^ 52 \<le> real_of_int m"
          by (metis of_int_le_iff of_int_numeral of_int_power)
        then have "2 ^ 52 * 2 powi e \<le> r" by (simp add: r_def)
        then have "2 powi (e + 52) \<le> r" by (simp add: pow2_add)
        with rpos show "e + 52 \<le> ilog2 r" by (rule ilog2_ge)
      qed
      ultimately have e': "exponent64 r = e" using e rpos
        by (cases "- 1074 < e") (simp_all add: exponent64_def)
      have q: "r / 2 powi e = real_of_int m" by (simp add: r_def)
      have "round64 r = real_of_int m * 2 powi e"
        using rpos by (simp only: round64_pos e' q rne_of_int)
      then show ?thesis unfolding r by (simp add: r_def)
    qed
  qed
qed

text \<open>A rounded number is a binary64 number: rounding it again gives it back.\<close>

lemma round64_idem: "round64 (round64 x) = round64 x"
proof -
  consider "0 < x" | "x = 0" | "x < 0" by linarith
  then show ?thesis
  proof cases
    case 1
    then show ?thesis by (rule round64_idem_pos)
  next
    case 2
    then show ?thesis by (simp add: round64_zero)
  next
    case 3
    then have "round64 (round64 (- x)) = round64 (- x)" by (intro round64_idem_pos) simp
    then show ?thesis by (simp add: round64_uminus)
  qed
qed

lemma add64_mono: "a \<le> b \<Longrightarrow> add64 a d \<le> add64 b d"
  by (simp add: add64_def round64_mono)

lemma add64_ge: "round64 t = t \<Longrightarrow> 0 \<le> d \<Longrightarrow> t \<le> add64 t d"
  using round64_mono[of t "t + d"] by (simp add: add64_def)

lemma add64_representable: "round64 (add64 a b) = add64 a b"
  by (simp add: add64_def round64_idem)

lemma max_representable: "round64 a = a \<Longrightarrow> round64 b = b \<Longrightarrow> round64 (max a b) = max a b"
  by (simp add: max_def)

lemma foldl_add64_mono: "a \<le> b \<Longrightarrow> foldl add64 a ds \<le> foldl add64 b ds"
  by (induction ds arbitrary: a b) (simp_all add: add64_mono)

subsection \<open>Auxiliary facts\<close>

lemmas handler_defs = onMessage_def handleAudio_def handleOutputTranscription_def
  handleInputTranscription_def handleTurnComplete_def handleInterrupted_def Let_def

lemma all_dropWhile: "(\<forall>x\<in>set (dropWhile P s). P x) \<longleftrightarrow> (\<forall>x\<in>set s. P x)"
  by (induction s) auto

lemma trim_empty_iff: "trim s = [] \<longleftrightarrow> list_all isWhiteSpace s"
  by (simp add: trim_def dropWhile_eq_Nil_conv list_all_iff all_dropWhile)

lemma newItems_finalized: "newItems (trim a) (trim b) = finalized User a @ finalized Model b"
  by (simp add: newItems_def finalized_def trim_empty_iff)

lemma onMessages_append:
  "onMessages dec s (xs @ ys) = onMessages dec (onMessages dec s xs) ys"
  by (induction xs arbitrary: s) auto

text \<open>What the audio block leaves alone when it does not throw.\<close>

lemma handleAudio_frame:
  assumes "handleAudio dec now s msg = Resolved s1"
  shows "transcript s1 = transcript s" "currentInputRef s1 = currentInputRef s"
    "currentOutputRef s1 = currentOutputRef s" "status s1 = status s"
    "isConnected s1 = isConnected s" "isMuted s1 = isMuted s"
    "isScreenSharing s1 = isScreenSharing s" "videoIntervalRef s1 = videoIntervalRef s"
    "videoStreamRef s1 = videoStreamRef s"
  using assms by (auto simp: handleAudio_def Let_def split: option.splits if_splits)

lemma handleAudio_sources:
  assumes "handleAudio dec now s msg = Resolved s1"
  shows "set (sourcesRef s) \<subseteq> set (sourcesRef s1)"
    and "\<exists>es. effects s1 = effects s @ es
           \<and> (\<forall>src t. StartSource src t \<in> set es \<longrightarrow> src \<in> set (sourcesRef s1))"
  using assms by (auto simp: handleAudio_def Let_def set_add_def split: option.splits if_splits)

lemma onMessage_Resolved:
  assumes "onMessage dec now s msg = Resolved s'"
  obtains s1 where "handleAudio dec now s msg = Resolved s1"
    and "s' = handleInterrupted msg (handleTurnComplete msg
            (handleInputTranscription msg (handleOutputTranscription msg s1)))"
  using assms by (auto simp: onMessage_def split: handled.splits)

lemma handleOutputTranscription_acc:
  "currentOutputRef (handleOutputTranscription msg s)
     = currentOutputRef s @ text_of (outputTranscription msg)"
  by (simp add: handleOutputTranscription_def text_of_def split: option.splits)

lemma handleInputTranscription_acc:
  "currentInputRef (handleInputTranscription msg s)
     = currentInputRef s @ text_of (inputTranscription msg)"
  by (simp add: handleInputTranscription_def text_of_def split: option.splits)

lemma transcription_accs:
  assumes "handleAudio dec now s msg = Resolved s1"
  shows "currentInputRef (handleInputTranscription msg (handleOutputTranscription msg s1))
           = currentInputRef s @ text_of (inputTranscription msg)"
    and "currentOutputRef (handleInputTranscription msg (handleOutputTranscription msg s1))
           = currentOutputRef s @ text_of (outputTranscription msg)"
    and "transcript (handleInputTranscription msg (handleOutputTranscription msg s1)) = transcript s"
proof -
  show "currentInputRef (handleInputTranscription msg (handleOutputTranscription msg s1))
           = currentInputRef s @ text_of (inputTranscription msg)"
    using handleAudio_frame(2)[OF assms]
    by (simp add: handleInputTranscription_acc)
       (simp add: handleOutputTranscription_def split: option.splits)
  show "currentOutputRef (handleInputTranscription msg (handleOutputTranscription msg s1))
           = currentOutputRef s @ text_of (outputTranscription msg)"
    using handleAudio_frame(3)[OF assms] handleOutputTranscription_acc[of msg s1]
    by (simp add: handleInputTranscription_def split: option.splits)
  show "transcript (handleInputTranscription msg (handleOutputTranscription msg s1)) = transcript s"
    using handleAudio_frame(1)[OF assms]
    by (simp add: handleInputTranscription_def handleOutputTranscription_def split: option.splits)
qed

lemma transcription_frame:
  "sourcesRef (handleTurnComplete msg (handleInputTranscription msg (handleOutputTranscription msg s1)))
     = sourcesRef s1"
  "effects (handleTurnComplete msg (handleInputTranscription msg (handleOutputTranscription msg s1)))
     = effects s1"
  by (simp_all add: handleTurnComplete_def handleInputTranscription_def
      handleOutputTranscription_def Let_def split: option.splits)

lemma handleTurnComplete_transcript:
  "take (length (transcript s)) (transcript (handleTurnComplete msg s)) = transcript s"
  "\<not> turnComplete msg \<Longrightarrow> transcript (handleTurnComplete msg s) = transcript s"
  by (simp_all add: handleTurnComplete_def Let_def)

text \<open>Messages that carry a single event.\<close>

lemma state_of_input_delta:
  "state_of (onMessage dec now s (input_delta t)) = s\<lparr> currentInputRef := currentInputRef s @ t \<rparr>"
  by (simp add: handler_defs input_delta_def)

lemma state_of_output_delta:
  "state_of (onMessage dec now s (output_delta t)) =
     (if t = [] then s
      else s\<lparr> currentOutputRef := currentOutputRef s @ t, captionText := currentOutputRef s @ t \<rparr>)"
  by (simp add: handler_defs output_delta_def)

lemma state_of_turn_complete:
  "state_of (onMessage dec now s turn_complete_event) =
     s\<lparr> transcript := transcript s @ finalized User (currentInputRef s)
                        @ finalized Model (currentOutputRef s),
        currentInputRef := [], currentOutputRef := [] \<rparr>"
  by (simp add: handler_defs turn_complete_event_def newItems_finalized trim_empty_iff[symmetric])
     (simp add: finalized_def trim_empty_iff)

lemma input_deltas_acc:
  "onMessages dec s (map (\<lambda>(now, t). (now, input_delta t)) ds) =
     s\<lparr> currentInputRef := currentInputRef s @ concat (map snd ds) \<rparr>"
  by (induction ds arbitrary: s) (auto simp: state_of_input_delta)

lemma output_deltas_acc:
  "currentOutputRef (onMessages dec s (map (\<lambda>(now, t). (now, output_delta t)) ds))
     = currentOutputRef s @ concat (map snd ds)
   \<and> currentInputRef (onMessages dec s (map (\<lambda>(now, t). (now, output_delta t)) ds))
     = currentInputRef s
   \<and> transcript (onMessages dec s (map (\<lambda>(now, t). (now, output_delta t)) ds)) = transcript s"
  by (induction ds arbitrary: s) (auto simp: state_of_output_delta)

text \<open>The playback schedule.\<close>

lemma duration_nonneg: "0 \<le> duration b"
  by (simp add: duration_def div64_def round64_nonneg)

lemma scheduled_append: "scheduled (xs @ ys) = scheduled xs @ scheduled ys"
  by (induction xs rule: scheduled.induct) auto

lemma chain_mono: "chain w sch \<Longrightarrow> w' \<le> w \<Longrightarrow> chain w' sch"
  by (cases sch) auto

lemma chain_append:
  "chain w a \<Longrightarrow> chain w' b \<Longrightarrow> chain_end w a \<le> w' \<Longrightarrow> chain w (a @ b)"
proof (induction a arbitrary: w)
  case Nil
  then show ?case by (simp add: chain_mono)
next
  case (Cons x a)
  then show ?case by (cases x) auto
qed

lemma chain_end_append: "chain_end w (a @ b) = chain_end (chain_end w a) b"
  by (induction a arbitrary: w) auto

lemma chain_end_ge: "chain w sch \<Longrightarrow> w \<le> chain_end w sch"
proof (induction sch arbitrary: w)
  case Nil
  then show ?case by simp
next
  case (Cons x sch)
  obtain t d where x: "x = (t, d)" by (cases x)
  with Cons.prems have p: "w \<le> t" "round64 t = t" "0 \<le> d" "chain (add64 t d) sch" by auto
  from p(2,3) have "t \<le> add64 t d" by (rule add64_ge)
  with p(1) Cons.IH[OF p(4)] x show ?case by simp
qed

text \<open>
  One message without interruption, arriving at a binary64 clock reading while the
  watermark is a binary64 number: what it schedules continues the watermark, and the
  watermark stays a binary64 number.
\<close>

lemma onMessage_step:
  assumes "\<not> interrupted msg" and "round64 now = now"
    and "round64 (nextStartTimeRef s) = nextStartTimeRef s"
  shows "\<exists>sch. scheduled (effects (state_of (onMessage dec now s msg))) = scheduled (effects s) @ sch
          \<and> chain (nextStartTimeRef s) sch
          \<and> chain_end (nextStartTimeRef s) sch \<le> nextStartTimeRef (state_of (onMessage dec now s msg))
          \<and> round64 (nextStartTimeRef (state_of (onMessage dec now s msg)))
              = nextStartTimeRef (state_of (onMessage dec now s msg))"
proof -
  have later: "\<And>s1. effects (handleInterrupted msg (handleTurnComplete msg
            (handleInputTranscription msg (handleOutputTranscription msg s1)))) = effects s1
        \<and> nextStartTimeRef (handleInterrupted msg (handleTurnComplete msg
            (handleInputTranscription msg (handleOutputTranscription msg s1)))) = nextStartTimeRef s1"
    using assms(1)
    by (simp add: handleInterrupted_def handleTurnComplete_def handleInputTranscription_def
        handleOutputTranscription_def Let_def split: option.splits)
  have m: "round64 (max (nextStartTimeRef s) now) = max (nextStartTimeRef s) now"
    using assms(3,2) by (rule max_representable)
  show ?thesis
  proof (cases "handleAudio dec now s msg")
    case (Rejected s1)
    then have "effects s1 = effects s" "nextStartTimeRef s1 = max (nextStartTimeRef s) now"
      by (auto simp: handleAudio_def Let_def split: option.splits if_splits)
    with Rejected m show ?thesis by (simp add: onMessage_def)
  next
    case (Resolved s1)
    then have "(effects s1 = effects s \<and> nextStartTimeRef s1 = nextStartTimeRef s)
      \<or> (\<exists>src. effects s1 = effects s @ [StartSource src (max (nextStartTimeRef s) now)]
            \<and> nextStartTimeRef s1
                = add64 (max (nextStartTimeRef s) now) (duration (node_buffer src)))"
      by (auto simp: handleAudio_def Let_def split: option.splits if_splits)
    then show ?thesis
    proof
      assume "effects s1 = effects s \<and> nextStartTimeRef s1 = nextStartTimeRef s"
      with Resolved later[of s1] assms(3) show ?thesis by (simp add: onMessage_def)
    next
      assume "\<exists>src. effects s1 = effects s @ [StartSource src (max (nextStartTimeRef s) now)]
            \<and> nextStartTimeRef s1
                = add64 (max (nextStartTimeRef s) now) (duration (node_buffer src))"
      then obtain src where
        "effects s1 = effects s @ [StartSource src (max (nextStartTimeRef s) now)]"
        "nextStartTimeRef s1 = add64 (max (nextStartTimeRef s) now) (duration (node_buffer src))"
        by blast
      with Resolved later[of s1] m show ?thesis
        by (simp add: onMessage_def scheduled_append duration_nonneg add64_representable)
    qed
  qed
qed

lemma onMessages_chain:
  assumes "list_all (\<lambda>(now, msg). finite64 now \<and> \<not> interrupted msg) msgs"
    and "round64 (nextStartTimeRef s) = nextStartTimeRef s"
  shows "\<exists>sch. scheduled (effects (onMessages dec s msgs)) = scheduled (effects s) @ sch
          \<and> chain (nextStartTimeRef s) sch
          \<and> chain_end (nextStartTimeRef s) sch \<le> nextStartTimeRef (onMessages dec s msgs)
          \<and> round64 (nextStartTimeRef (onMessages dec s msgs))
              = nextStartTimeRef (onMessages dec s msgs)"
  using assms
proof (induction msgs arbitrary: s)
  case Nil
  then show ?case by simp
next
  case (Cons x msgs)
  obtain now msg where x: "x = (now, msg)" by (cases x)
  let ?s1 = "state_of (onMessage dec now s msg)"
  from Cons.prems(1) x have ni: "\<not> interrupted msg" and now: "round64 now = now"
    and rest: "list_all (\<lambda>(now, msg). finite64 now \<and> \<not> interrupted msg) msgs"
    by (auto simp: finite64_def)
  from onMessage_step[OF ni now Cons.prems(2), of dec] obtain a where
    a: "scheduled (effects ?s1) = scheduled (effects s) @ a" "chain (nextStartTimeRef s) a"
       "chain_end (nextStartTimeRef s) a \<le> nextStartTimeRef ?s1"
       "round64 (nextStartTimeRef ?s1) = nextStartTimeRef ?s1" by blast
  from Cons.IH[OF rest a(4)] obtain b where
    b: "scheduled (effects (onMessages dec ?s1 msgs)) = scheduled (effects ?s1) @ b"
       "chain (nextStartTimeRef ?s1) b"
       "chain_end (nextStartTimeRef ?s1) b \<le> nextStartTimeRef (onMessages dec ?s1 msgs)"
       "round64 (nextStartTimeRef (onMessages dec ?s1 msgs))
          = nextStartTimeRef (onMessages dec ?s1 msgs)" by blast
  have c: "chain (nextStartTimeRef s) (a @ b)" using a b by (simp add: chain_append)
  have e: "chain_end (nextStartTimeRef s) (a @ b) \<le> nextStartTimeRef (onMessages dec ?s1 msgs)"
  proof (cases b)
    case Nil
    then show ?thesis using a(3) b(3) by simp
  next
    case (Cons y ys)
    then show ?thesis using b(3) by (cases y) (simp add: chain_end_append)
  qed
  show ?case using a(1) b(1,4) c e x by auto
qed

text \<open>The watermark never decreases while no interruption arrives.\<close>

lemma watermark_mono:
  assumes "list_all (\<lambda>(now, msg). finite64 now \<and> \<not> interrupted msg) msgs"
    and "round64 (nextStartTimeRef s) = nextStartTimeRef s"
  shows "nextStartTimeRef s \<le> nextStartTimeRef (onMessages dec s msgs)"
proof -
  from onMessages_chain[OF assms, of dec] obtain sch where
    "chain (nextStartTimeRef s) sch"
    "chain_end (nextStartTimeRef s) sch \<le> nextStartTimeRef (onMessages dec s msgs)" by blast
  with chain_end_ge[of "nextStartTimeRef s" sch] show ?thesis by linarith
qed

lemma watermark_prefix:
  assumes "list_all (\<lambda>(now, msg). finite64 now \<and> \<not> interrupted msg) msgs"
    and "round64 (nextStartTimeRef s) = nextStartTimeRef s"
  shows "nextStartTimeRef (onMessages dec s (take k msgs)) \<le> nextStartTimeRef (onMessages dec s msgs)"
proof -
  let ?P = "\<lambda>(now, msg). finite64 now \<and> \<not> interrupted msg"
  from assms(1) have t: "list_all ?P (take k msgs)" and d: "list_all ?P (drop k msgs)"
    by (auto simp: list_all_iff dest: in_set_takeD in_set_dropD)
  from onMessages_chain[OF t assms(2), of dec]
  have r: "round64 (nextStartTimeRef (onMessages dec s (take k msgs)))
             = nextStartTimeRef (onMessages dec s (take k msgs))" by blast
  have "onMessages dec s msgs = onMessages dec (onMessages dec s (take k msgs)) (drop k msgs)"
    using onMessages_append[of dec s "take k msgs" "drop k msgs"] by simp
  with watermark_mono[OF d r, of dec] show ?thesis by simp
qed

lemma chain_ge: "chain w sch \<Longrightarrow> k < length sch \<Longrightarrow> w \<le> fst (sch ! k)"
proof (induction sch arbitrary: w k)
  case Nil
  then show ?case by simp
next
  case (Cons x sch)
  obtain t d where x: "x = (t, d)" by (cases x)
  with Cons.prems have p: "w \<le> t" "round64 t = t" "0 \<le> d" "chain (add64 t d) sch" by auto
  show ?case
  proof (cases k)
    case 0
    with p(1) x show ?thesis by simp
  next
    case (Suc k')
    with Cons.prems have "k' < length sch" by simp
    from Cons.IH[OF p(4) this] add64_ge[OF p(2,3)] p(1) Suc show ?thesis by simp
  qed
qed

lemma chain_fold:
  "chain w sch \<Longrightarrow> i < length sch \<Longrightarrow> foldl add64 w (map snd (take i sch)) \<le> fst (sch ! i)"
proof (induction sch arbitrary: w i)
  case Nil
  then show ?case by simp
next
  case (Cons x sch)
  obtain t d where x: "x = (t, d)" by (cases x)
  with Cons.prems have p: "w \<le> t" "chain (add64 t d) sch" by auto
  show ?case
  proof (cases i)
    case 0
    with p(1) x show ?thesis by simp
  next
    case (Suc k)
    with Cons.prems have k: "k < length sch" by simp
    from p(1) have "add64 w d \<le> add64 t d" by (rule add64_mono)
    then have "foldl add64 (add64 w d) (map snd (take k sch))
                 \<le> foldl add64 (add64 t d) (map snd (take k sch))"
      by (rule foldl_add64_mono)
    also have "\<dots> \<le> fst (sch ! k)" using p(2) k by (rule Cons.IH)
    finally show ?thesis using Suc x by simp
  qed
qed

lemma chain_relative:
  assumes "chain w sch" and "i < length sch"
  shows "foldl add64 (fst (sch ! 0)) (map snd (take i sch)) \<le> fst (sch ! i)"
proof (cases sch)
  case Nil
  with assms(2) show ?thesis by simp
next
  case (Cons x rest)
  obtain t d where x: "x = (t, d)" by (cases x)
  show ?thesis
  proof (cases i)
    case 0
    then show ?thesis by simp
  next
    case (Suc k)
    with assms Cons x have "chain (add64 t d) rest" "k < length rest" by auto
    from chain_fold[OF this] Suc Cons x show ?thesis by simp
  qed
qed

lemma chain_no_overlap:
  "chain w sch \<Longrightarrow> i < j \<Longrightarrow> j < length sch
     \<Longrightarrow> add64 (fst (sch ! i)) (snd (sch ! i)) \<le> fst (sch ! j)"
proof (induction sch arbitrary: w i j)
  case Nil
  then show ?case by simp
next
  case (Cons x sch)
  obtain t d where x: "x = (t, d)" by (cases x)
  from Cons.prems obtain k where j: "j = Suc k" by (cases j) auto
  from Cons.prems x j have c: "chain (add64 t d) sch" and k: "k < length sch" by auto
  show ?case
  proof (cases i)
    case 0
    from chain_ge[OF c k] 0 j x show ?thesis by simp
  next
    case (Suc i')
    with Cons.prems j have "i' < k" by simp
    from Cons.IH[OF c this k] Suc j show ?thesis by simp
  qed
qed

text \<open>The capture callback over time.\<close>

lemma capture_run_sent:
  "sent_audio (effects (capture_run createPcmBlob s evs))
     = sent_audio (effects s) @ (if closure_isMuted s then [] else map createPcmBlob (captured evs))"
proof (induction createPcmBlob s evs rule: capture_run.induct)
  case (1 createPcmBlob s)
  then show ?case by simp
next
  case (2 createPcmBlob s inputData rest)
  have app: "\<And>xs ys. sent_audio (xs @ ys) = sent_audio xs @ sent_audio ys"
  proof -
    fix xs ys :: "effect list"
    show "sent_audio (xs @ ys) = sent_audio xs @ sent_audio ys"
      by (induction xs rule: sent_audio.induct) auto
  qed
  from 2 show ?case by (simp add: onaudioprocess_def app)
next
  case (3 createPcmBlob s rest)
  then show ?case by (simp add: toggleMute_def)
qed

text \<open>Teardown in closed form.\<close>

lemma stopScreenShare_eq:
  "stopScreenShare s = s\<lparr> effects := effects s @ map ClearInterval (handle_list (videoIntervalRef s))
          @ map StopTracks (handle_list (videoStreamRef s)),
       videoIntervalRef := None, videoStreamRef := None,
       videoRef := map_option (\<lambda>el. el\<lparr> srcObject := None \<rparr>) (videoRef s),
       isScreenSharing := False \<rparr>"
  by (cases "videoIntervalRef s"; cases "videoStreamRef s"; cases "videoRef s")
     (simp_all add: stopScreenShare_def)

lemma cleanup_eq:
  "cleanup s = s\<lparr> effects := effects s @ teardown_effects s,
       streamRef := None, processorRef := None, inputSourceRef := None, audioContextRef := None,
       sourcesRef := [], videoIntervalRef := None, videoStreamRef := None,
       videoRef := map_option (\<lambda>el. el\<lparr> srcObject := None \<rparr>) (videoRef s),
       isScreenSharing := False, isConnected := False, status := Disconnected, transcript := [],
       captionText := [], currentInputRef := [], currentOutputRef := [] \<rparr>"
  by (cases "streamRef s"; cases "processorRef s"; cases "inputSourceRef s"; cases "audioContextRef s")
     (simp_all add: cleanup_def stopScreenShare_eq teardown_effects_def)

lemma teardown_effects_cleanup: "teardown_effects (cleanup s) = []"
  by (simp add: cleanup_eq teardown_effects_def)

lemma cleanup_idem: "cleanup (cleanup s) = cleanup s"
proof -
  have "cleanup (cleanup s) = (cleanup s)\<lparr>
       effects := effects (cleanup s) @ teardown_effects (cleanup s),
       streamRef := None, processorRef := None, inputSourceRef := None, audioContextRef := None,
       sourcesRef := [], videoIntervalRef := None, videoStreamRef := None,
       videoRef := map_option (\<lambda>el. el\<lparr> srcObject := None \<rparr>) (videoRef (cleanup s)),
       isScreenSharing := False, isConnected := False, status := Disconnected, transcript := [],
       captionText := [], currentInputRef := [], currentOutputRef := [] \<rparr>"
    by (rule cleanup_eq)
  also have "\<dots> = cleanup s"
    unfolding teardown_effects_cleanup
    by (simp add: cleanup_eq option.map_comp comp_def)
  finally show ?thesis .
qed

lemma releases_teardown: "map releases (teardown_effects s) = map Some (held s)"
  by (simp add: teardown_effects_def held_def comp_def)

lemma release_count_map: "release_count h es = count_list (map releases es) (Some h)"
  by (induction es) (auto simp: release_count_def)

lemma count_list_distinct: "distinct xs \<Longrightarrow> count_list xs x = (if x \<in> set xs then 1 else 0)"
  by (induction xs) auto

lemma count_list_map_Some: "count_list (map Some xs) (Some x) = count_list xs x"
  by (induction xs) auto

subsection \<open>Handles stay distinct\<close>

text \<open>
  The component as mounted satisfies \<open>handles_fresh\<close>, and every handler keeps it: a
  handler only drops handles from the refs or stores one just taken from the counter.
\<close>

lemma distinct_count: "distinct xs \<longleftrightarrow> (\<forall>x. count_list xs x \<le> 1)"
proof (induction xs)
  case Nil
  then show ?case by simp
next
  case (Cons a xs)
  show ?case
  proof
    assume d: "distinct (a # xs)"
    then have "count_list xs a = 0" by (simp add: count_list_0_iff)
    with d Cons show "\<forall>x. count_list (a # xs) x \<le> 1" by auto
  next
    assume c: "\<forall>x. count_list (a # xs) x \<le> 1"
    then have "count_list (a # xs) a \<le> 1" by blast
    then have "a \<notin> set xs" by (simp add: count_list_0_iff)
    moreover have "\<forall>x. count_list xs x \<le> 1"
    proof
      fix x
      from c have "count_list (a # xs) x \<le> 1" by blast
      then show "count_list xs x \<le> 1" by (simp split: if_splits)
    qed
    ultimately show "distinct (a # xs)" using Cons by simp
  qed
qed

lemma handles_fresh_alt:
  "handles_fresh s \<longleftrightarrow>
     (\<forall>h. count_list (held s) h \<le> 1 \<and> (fresh s \<le> h \<longrightarrow> count_list (held s) h = 0))"
  by (auto simp: handles_fresh_def distinct_count list_all_iff count_list_0_iff not_less[symmetric])

lemma count_handle_list: "count_list (handle_list x) h = (if x = Some h then 1 else 0)"
  by (cases x) auto

lemma count_removeAll: "count_list (map f (removeAll x xs)) h \<le> count_list (map f xs) h"
  by (induction xs) auto

lemma handles_fresh_initial: "handles_fresh initial"
  by (simp add: handles_fresh_def held_def initial_def)

lemma handles_fresh_cleanup: "handles_fresh s \<Longrightarrow> handles_fresh (cleanup s)"
  unfolding handles_fresh_alt
proof (intro allI)
  fix h
  assume "\<forall>h. count_list (held s) h \<le> 1 \<and> (fresh s \<le> h \<longrightarrow> count_list (held s) h = 0)"
  then have "count_list (held s) h \<le> 1" and "fresh s \<le> h \<longrightarrow> count_list (held s) h = 0"
    by blast+
  then show "count_list (held (cleanup s)) h \<le> 1
      \<and> (fresh (cleanup s) \<le> h \<longrightarrow> count_list (held (cleanup s)) h = 0)"
    by (simp add: held_def cleanup_eq count_handle_list split: if_splits)
qed

lemma handles_fresh_stopScreenShare: "handles_fresh s \<Longrightarrow> handles_fresh (stopScreenShare s)"
  unfolding handles_fresh_alt
proof (intro allI)
  fix h
  assume "\<forall>h. count_list (held s) h \<le> 1 \<and> (fresh s \<le> h \<longrightarrow> count_list (held s) h = 0)"
  then have "count_list (held s) h \<le> 1" and "fresh s \<le> h \<longrightarrow> count_list (held s) h = 0"
    by blast+
  then show "count_list (held (stopScreenShare s)) h \<le> 1
      \<and> (fresh (stopScreenShare s) \<le> h \<longrightarrow> count_list (held (stopScreenShare s)) h = 0)"
    by (simp add: held_def stopScreenShare_eq count_handle_list split: if_splits)
qed

lemma handles_fresh_toggleMute: "handles_fresh s \<Longrightarrow> handles_fresh (toggleMute s)"
  unfolding handles_fresh_alt
proof (intro allI)
  fix h
  assume "\<forall>h. count_list (held s) h \<le> 1 \<and> (fresh s \<le> h \<longrightarrow> count_list (held s) h = 0)"
  then have "count_list (held s) h \<le> 1" and "fresh s \<le> h \<longrightarrow> count_list (held s) h = 0"
    by blast+
  then show "count_list (held (toggleMute s)) h \<le> 1
      \<and> (fresh (toggleMute s) \<le> h \<longrightarrow> count_list (held (toggleMute s)) h = 0)"
    by (simp add: held_def toggleMute_def count_handle_list split: if_splits)
qed

lemma handles_fresh_onaudioprocess: "handles_fresh s \<Longrightarrow> handles_fresh (onaudioprocess createPcmBlob s inputData)"
  unfolding handles_fresh_alt
proof (intro allI)
  fix h
  assume "\<forall>h. count_list (held s) h \<le> 1 \<and> (fresh s \<le> h \<longrightarrow> count_list (held s) h = 0)"
  then have "count_list (held s) h \<le> 1" and "fresh s \<le> h \<longrightarrow> count_list (held s) h = 0"
    by blast+
  then show "count_list (held (onaudioprocess createPcmBlob s inputData)) h \<le> 1
      \<and> (fresh (onaudioprocess createPcmBlob s inputData) \<le> h \<longrightarrow> count_list (held (onaudioprocess createPcmBlob s inputData)) h = 0)"
    by (simp add: held_def onaudioprocess_def count_handle_list split: if_splits)
qed

lemma handles_fresh_onOpen: "handles_fresh s \<Longrightarrow> handles_fresh (onOpen s)"
  unfolding handles_fresh_alt
proof (intro allI)
  fix h
  assume "\<forall>h. count_list (held s) h \<le> 1 \<and> (fresh s \<le> h \<longrightarrow> count_list (held s) h = 0)"
  then have "count_list (held s) h \<le> 1" and "fresh s \<le> h \<longrightarrow> count_list (held s) h = 0"
    by blast+
  then show "count_list (held (onOpen s)) h \<le> 1
      \<and> (fresh (onOpen s) \<le> h \<longrightarrow> count_list (held (onOpen s)) h = 0)"
    by (simp add: held_def onOpen_def count_handle_list split: if_splits)
qed

lemma handles_fresh_startVideoTransmission: "handles_fresh s \<Longrightarrow> handles_fresh (startVideoTransmission s)"
  unfolding handles_fresh_alt
proof (intro allI)
  fix h
  assume "\<forall>h. count_list (held s) h \<le> 1 \<and> (fresh s \<le> h \<longrightarrow> count_list (held s) h = 0)"
  then have "count_list (held s) h \<le> 1" and "fresh s \<le> h \<longrightarrow> count_list (held s) h = 0"
    by blast+
  then show "count_list (held (startVideoTransmission s)) h \<le> 1
      \<and> (fresh (startVideoTransmission s) \<le> h \<longrightarrow> count_list (held (startVideoTransmission s)) h = 0)"
    by (simp add: held_def startVideoTransmission_def count_handle_list split: if_splits)
qed

lemma handles_fresh_startSession: "handles_fresh s \<Longrightarrow> handles_fresh (startSession outcome s)"
  unfolding handles_fresh_alt
proof (intro allI)
  fix h
  assume "\<forall>h. count_list (held s) h \<le> 1 \<and> (fresh s \<le> h \<longrightarrow> count_list (held s) h = 0)"
  then have "count_list (held s) h \<le> 1" and "fresh s \<le> h \<longrightarrow> count_list (held s) h = 0"
    by blast+
  then show "count_list (held (startSession outcome s)) h \<le> 1
      \<and> (fresh (startSession outcome s) \<le> h \<longrightarrow> count_list (held (startSession outcome s)) h = 0)"
    by (simp add: held_def startSession_def Let_def count_handle_list split: if_splits)
qed

lemma handles_fresh_getDisplayMedia: "handles_fresh s \<Longrightarrow> handles_fresh (s\<lparr> effects := es, fresh := fresh s + 1, videoStreamRef := Some (fresh s), isScreenSharing := True \<rparr>)"
  unfolding handles_fresh_alt
proof (intro allI)
  fix h
  assume "\<forall>h. count_list (held s) h \<le> 1 \<and> (fresh s \<le> h \<longrightarrow> count_list (held s) h = 0)"
  then have "count_list (held s) h \<le> 1" and "fresh s \<le> h \<longrightarrow> count_list (held s) h = 0"
    by blast+
  then show "count_list (held (s\<lparr> effects := es, fresh := fresh s + 1, videoStreamRef := Some (fresh s), isScreenSharing := True \<rparr>)) h \<le> 1
      \<and> (fresh (s\<lparr> effects := es, fresh := fresh s + 1, videoStreamRef := Some (fresh s), isScreenSharing := True \<rparr>) \<le> h \<longrightarrow> count_list (held (s\<lparr> effects := es, fresh := fresh s + 1, videoStreamRef := Some (fresh s), isScreenSharing := True \<rparr>)) h = 0)"
    by (simp add: held_def  count_handle_list split: if_splits)
qed

lemma handles_fresh_videoRef: "handles_fresh (s\<lparr> videoRef := v \<rparr>) = handles_fresh s"
  by (simp add: handles_fresh_def held_def)

lemma handles_fresh_isScreenSharing: "handles_fresh (s\<lparr> isScreenSharing := v \<rparr>) = handles_fresh s"
  by (simp add: handles_fresh_def held_def)

lemma handles_fresh_toggleScreenShare:
  assumes "handles_fresh s"
  shows "handles_fresh (toggleScreenShare granted s)"
proof -
  have "handles_fresh (stopScreenShare s)"
    using assms by (rule handles_fresh_stopScreenShare)
  moreover have "handles_fresh (s\<lparr> effects := effects s @ [GetDisplayMedia (fresh s)],
      fresh := fresh s + 1, videoStreamRef := Some (fresh s), isScreenSharing := True \<rparr>)"
    using assms by (rule handles_fresh_getDisplayMedia)
  ultimately show ?thesis using assms
    by (simp add: toggleScreenShare_def Let_def handles_fresh_videoRef handles_fresh_isScreenSharing
        split: option.splits)
qed

lemma handles_fresh_sourceEnded: "handles_fresh s \<Longrightarrow> handles_fresh (sourceEnded source s)"
  unfolding handles_fresh_alt
proof (intro allI)
  fix h
  assume "\<forall>h. count_list (held s) h \<le> 1 \<and> (fresh s \<le> h \<longrightarrow> count_list (held s) h = 0)"
  then have "count_list (held s) h \<le> 1" and "fresh s \<le> h \<longrightarrow> count_list (held s) h = 0"
    by blast+
  then show "count_list (held (sourceEnded source s)) h \<le> 1
      \<and> (fresh (sourceEnded source s) \<le> h \<longrightarrow> count_list (held (sourceEnded source s)) h = 0)"
    using count_removeAll[of node_id source "sourcesRef s" h]
    by (auto simp: held_def sourceEnded_def)
qed

lemma handles_fresh_handleInterrupted: "handles_fresh s \<Longrightarrow> handles_fresh (handleInterrupted msg s)"
  unfolding handles_fresh_alt
proof (intro allI)
  fix h
  assume "\<forall>h. count_list (held s) h \<le> 1 \<and> (fresh s \<le> h \<longrightarrow> count_list (held s) h = 0)"
  then have "count_list (held s) h \<le> 1" and "fresh s \<le> h \<longrightarrow> count_list (held s) h = 0"
    by blast+
  then show "count_list (held (handleInterrupted msg s)) h \<le> 1
      \<and> (fresh (handleInterrupted msg s) \<le> h \<longrightarrow> count_list (held (handleInterrupted msg s)) h = 0)"
    by (auto simp: held_def handleInterrupted_def)
qed

lemma handles_fresh_handleAudio: "handles_fresh s \<Longrightarrow> handles_fresh (state_of (handleAudio dec now s msg))"
  unfolding handles_fresh_alt
proof (intro allI)
  fix h
  assume "\<forall>h. count_list (held s) h \<le> 1 \<and> (fresh s \<le> h \<longrightarrow> count_list (held s) h = 0)"
  then have "count_list (held s) h \<le> 1" and "fresh s \<le> h \<longrightarrow> count_list (held s) h = 0"
    by blast+
  then show "count_list (held (state_of (handleAudio dec now s msg))) h \<le> 1
      \<and> (fresh (state_of (handleAudio dec now s msg)) \<le> h \<longrightarrow> count_list (held (state_of (handleAudio dec now s msg))) h = 0)"
    by (auto simp: held_def handleAudio_def Let_def set_add_def split: option.splits)
qed

lemma transcription_held:
  "held (handleTurnComplete msg (handleInputTranscription msg (handleOutputTranscription msg s)))
     = held s"
  "fresh (handleTurnComplete msg (handleInputTranscription msg (handleOutputTranscription msg s)))
     = fresh s"
  by (simp_all add: held_def handleTurnComplete_def handleInputTranscription_def
      handleOutputTranscription_def Let_def split: option.splits)

lemma handles_fresh_transcription:
  "handles_fresh s \<Longrightarrow> handles_fresh (handleTurnComplete msg
     (handleInputTranscription msg (handleOutputTranscription msg s)))"
  by (simp add: handles_fresh_def transcription_held)

lemma handles_fresh_onMessage:
  "handles_fresh s \<Longrightarrow> handles_fresh (state_of (onMessage dec now s msg))"
  using handles_fresh_handleAudio[of s dec now msg]
  by (cases "handleAudio dec now s msg")
     (simp_all add: onMessage_def handles_fresh_handleInterrupted handles_fresh_transcription)

lemma handles_fresh_onMessages:
  "handles_fresh s \<Longrightarrow> handles_fresh (onMessages dec s msgs)"
  by (induction msgs arbitrary: s) (auto simp: handles_fresh_onMessage)

text \<open>The example sessions in closed form.\<close>

lemma connected_session_eq:
  "connected_session = initial\<lparr> status := Connected, isConnected := True,
     audioContextRef := Some 0, outputCtx := Some 1, streamRef := Some 2, sessionPromiseRef := Some 3,
     inputSourceRef := Some 4, processorRef := Some 5, fresh := 6,
     effects := [NewAudioContext 0 16000, NewAudioContext 1 24000, GetUserMedia 2, ConnectLive 3,
        CreateMediaStreamSource 4, CreateScriptProcessor 5] \<rparr>"
  by (simp add: connected_session_def onOpen_def startSession_def initial_def Let_def)

lemma held_busy_session: "held busy_session = [2, 5, 4, 0, 8, 7, 6]"
  by (simp add: busy_session_def connected_session_eq initial_def toggleScreenShare_def
      startVideoTransmission_def audio_chunk_def handler_defs example_decodeAudio_def
      set_add_def held_def)

subsection \<open>Playback scheduling\<close>

text \<open>
  Claim C1 fails on the code, whose sums are rounded. Six chunks of 0.1 s arrive at clock
  reading 0 on a fresh component. The fourth buffer starts at 0.30000000000000004 and the
  fifth at 0.4, which is before the fourth one's start plus its duration; and the sixth
  starts at 0.5, which is less than the first start plus the five durations before it,
  each a little more than 0.1.
\<close>

theorem gapless_playback_counterexample:
  "scheduled_by tenth_decodeAudio initial six_chunks
     = [(0, 3602879701896397 / 2 ^ 55),
        (3602879701896397 / 2 ^ 55, 3602879701896397 / 2 ^ 55),
        (3602879701896397 / 2 ^ 54, 3602879701896397 / 2 ^ 55),
        (1351079888211149 / 2 ^ 52, 3602879701896397 / 2 ^ 55),
        (3602879701896397 / 2 ^ 53, 3602879701896397 / 2 ^ 55),
        (1 / 2, 3602879701896397 / 2 ^ 55)]
   \<and> fst (scheduled_by tenth_decodeAudio initial six_chunks ! 4)
       < fst (scheduled_by tenth_decodeAudio initial six_chunks ! 3)
         + snd (scheduled_by tenth_decodeAudio initial six_chunks ! 3)
   \<and> fst (scheduled_by tenth_decodeAudio initial six_chunks ! 5)
       < fst (scheduled_by tenth_decodeAudio initial six_chunks ! 0)
         + sum_list (map snd (take 5 (scheduled_by tenth_decodeAudio initial six_chunks)))"
proof -
  have e: "scheduled_by tenth_decodeAudio initial six_chunks
     = [(0, 3602879701896397 / 2 ^ 55),
        (3602879701896397 / 2 ^ 55, 3602879701896397 / 2 ^ 55),
        (3602879701896397 / 2 ^ 54, 3602879701896397 / 2 ^ 55),
        (1351079888211149 / 2 ^ 52, 3602879701896397 / 2 ^ 55),
        (3602879701896397 / 2 ^ 53, 3602879701896397 / 2 ^ 55),
        (1 / 2, 3602879701896397 / 2 ^ 55)]"
    unfolding scheduled_by_def six_chunks_def
    by (simp add: handler_defs audio_chunk_def tenth_decodeAudio_def initial_def set_add_def
        duration_def number_defs)
  show ?thesis unfolding e by simp
qed

text \<open>
  Claim C1 as amended. Take any messages, none of them carrying \<^verbatim>\<open>interrupted\<close>, each
  arriving at a clock reading that is a finite binary64 number, processed from any state
  whose \<^verbatim>\<open>nextStartTime\<close> is one, and let \<^verbatim>\<open>nextStartTime\<close> end below \<open>2 ^ 1024\<close>. Of the
  buffers they schedule, the \<open>i\<close>-th starts no earlier than the first one's start with the
  durations of those before it added on one by one in binary64; a buffer scheduled later
  starts no earlier than the binary64 sum of start and duration of any earlier one; and
  \<^verbatim>\<open>nextStartTime\<close> never decreases, so it stays below \<open>2 ^ 1024\<close> throughout. Each single
  message whose chunk decodes schedules its buffer at the maximum of \<^verbatim>\<open>nextStartTime\<close>
  and the clock and leaves \<^verbatim>\<open>nextStartTime\<close> at the binary64 sum of that start and the
  buffer's duration.
\<close>

theorem gapless_playback:
  assumes "list_all (\<lambda>(now, msg). finite64 now \<and> \<not> interrupted msg) msgs"
    and "finite64 (nextStartTimeRef s)"
    and "nextStartTimeRef (onMessages dec s msgs) < 2 ^ 1024"
  shows "(\<forall>i < length (scheduled_by dec s msgs).
            foldl add64 (fst (scheduled_by dec s msgs ! 0))
                (map snd (take i (scheduled_by dec s msgs)))
              \<le> fst (scheduled_by dec s msgs ! i))
       \<and> (\<forall>i j. i < j \<and> j < length (scheduled_by dec s msgs) \<longrightarrow>
            add64 (fst (scheduled_by dec s msgs ! i)) (snd (scheduled_by dec s msgs ! i))
              \<le> fst (scheduled_by dec s msgs ! j))
       \<and> (\<forall>k. nextStartTimeRef (onMessages dec s (take k msgs))
              \<le> nextStartTimeRef (onMessages dec s msgs))
       \<and> (\<forall>now msg base64Audio audioBuffer.
            inlineData msg = Some base64Audio \<and> base64Audio \<noteq> []
              \<and> dec base64Audio = Some audioBuffer \<and> \<not> interrupted msg \<longrightarrow>
            scheduled_by dec s [(now, msg)] = [(max (nextStartTimeRef s) now, duration audioBuffer)]
            \<and> nextStartTimeRef (onMessages dec s [(now, msg)])
                = add64 (max (nextStartTimeRef s) now) (duration audioBuffer))"
proof -
  from assms(2) have r: "round64 (nextStartTimeRef s) = nextStartTimeRef s"
    by (simp add: finite64_def)
  from onMessages_chain[OF assms(1) r, of dec] obtain sch where
    sch: "scheduled (effects (onMessages dec s msgs)) = scheduled (effects s) @ sch"
    and c: "chain (nextStartTimeRef s) sch" by blast
  have eq: "scheduled_by dec s msgs = sch" by (simp add: scheduled_by_def sch)
  have 1: "\<forall>i < length (scheduled_by dec s msgs).
            foldl add64 (fst (scheduled_by dec s msgs ! 0))
                (map snd (take i (scheduled_by dec s msgs)))
              \<le> fst (scheduled_by dec s msgs ! i)"
    unfolding eq using chain_relative[OF c] by blast
  have 2: "\<forall>i j. i < j \<and> j < length (scheduled_by dec s msgs) \<longrightarrow>
            add64 (fst (scheduled_by dec s msgs ! i)) (snd (scheduled_by dec s msgs ! i))
              \<le> fst (scheduled_by dec s msgs ! j)"
    unfolding eq using chain_no_overlap[OF c] by blast
  have 3: "\<forall>k. nextStartTimeRef (onMessages dec s (take k msgs))
              \<le> nextStartTimeRef (onMessages dec s msgs)"
    using watermark_prefix[OF assms(1) r, of dec] by blast
  have 4: "\<forall>now msg base64Audio audioBuffer.
            inlineData msg = Some base64Audio \<and> base64Audio \<noteq> []
              \<and> dec base64Audio = Some audioBuffer \<and> \<not> interrupted msg \<longrightarrow>
            scheduled_by dec s [(now, msg)] = [(max (nextStartTimeRef s) now, duration audioBuffer)]
            \<and> nextStartTimeRef (onMessages dec s [(now, msg)])
                = add64 (max (nextStartTimeRef s) now) (duration audioBuffer)"
    by (auto simp: scheduled_by_def handler_defs scheduled_append split: option.splits)
  from 1 2 3 4 show ?thesis by blast
qed

text \<open>
  Three chunks of 500 ms arriving at clock readings 0, 0.125 and 0.25 on a fresh
  component are scheduled at 0, 0.5 and 1.
\<close>

theorem gapless_playback_witness:
  "list_all (\<lambda>(now, msg). finite64 now \<and> \<not> interrupted msg)
     [(0, audio_chunk [0x41]), (1 / 8, audio_chunk [0x41]), (1 / 4, audio_chunk [0x41])]
   \<and> finite64 (nextStartTimeRef initial)
   \<and> nextStartTimeRef (onMessages example_decodeAudio initial
        [(0, audio_chunk [0x41]), (1 / 8, audio_chunk [0x41]), (1 / 4, audio_chunk [0x41])]) < 2 ^ 1024
   \<and> scheduled_by example_decodeAudio initial
        [(0, audio_chunk [0x41]), (1 / 8, audio_chunk [0x41]), (1 / 4, audio_chunk [0x41])]
      = [(0, 1 / 2), (1 / 2, 1 / 2), (1, 1 / 2)]
   \<and> add64 (fst (scheduled_by example_decodeAudio initial
        [(0, audio_chunk [0x41]), (1 / 8, audio_chunk [0x41]), (1 / 4, audio_chunk [0x41])] ! 0))
          (snd (scheduled_by example_decodeAudio initial
        [(0, audio_chunk [0x41]), (1 / 8, audio_chunk [0x41]), (1 / 4, audio_chunk [0x41])] ! 0))
      \<le> fst (scheduled_by example_decodeAudio initial
        [(0, audio_chunk [0x41]), (1 / 8, audio_chunk [0x41]), (1 / 4, audio_chunk [0x41])] ! 2)"
proof -
  let ?msgs = "[(0, audio_chunk [0x41]), (1 / 8, audio_chunk [0x41]), (1 / 4, audio_chunk [0x41])]"
  let ?sb = "scheduled_by example_decodeAudio initial ?msgs"
  have f: "finite64 0" "finite64 (1 / 8)" "finite64 (1 / 4)"
    by (simp_all add: finite64_def number_defs)
  have h: "list_all (\<lambda>(now, msg). finite64 now \<and> \<not> interrupted msg) ?msgs"
    by (simp add: audio_chunk_def f)
  have w: "finite64 (nextStartTimeRef initial)" by (simp add: initial_def f)
  have n: "nextStartTimeRef (onMessages example_decodeAudio initial ?msgs) = 3 / 2"
    by (simp add: handler_defs audio_chunk_def example_decodeAudio_def initial_def set_add_def
        duration_def number_defs)
  have b: "nextStartTimeRef (onMessages example_decodeAudio initial ?msgs) < 2 ^ 1024"
    unfolding n by simp
  have e: "?sb = [(0, 1 / 2), (1 / 2, 1 / 2), (1, 1 / 2)]"
    unfolding scheduled_by_def
    by (simp add: handler_defs audio_chunk_def example_decodeAudio_def initial_def set_add_def
        duration_def number_defs)
  from gapless_playback[OF h w b]
  have "\<forall>i j. i < j \<and> j < length ?sb \<longrightarrow> add64 (fst (?sb ! i)) (snd (?sb ! i)) \<le> fst (?sb ! j)"
    by blast
  moreover have "(0::nat) < 2 \<and> 2 < length ?sb" by (simp only: e) simp
  ultimately have "add64 (fst (?sb ! 0)) (snd (?sb ! 0)) \<le> fst (?sb ! 2)" by blast
  with h w b e show ?thesis by (intro conjI)
qed

subsection \<open>Mute\<close>

text \<open>
  Claim C2, evaluated on the code. On a connected session the user presses mute and the
  capture callback then runs once: one capture cycle, and it falls while \<^verbatim>\<open>isMuted\<close> is
  true, so the claim has no frame transmitted. The callback transmits the frame: the
  \<^verbatim>\<open>isMuted\<close> it tests is the binding of the render in which the session was started,
  which the button does not change.
\<close>

theorem capture_ignores_mute:
  "captured [ToggleMute, Capture inputData] = [inputData]
   \<and> muted_cycles (isMuted connected_session) [ToggleMute, Capture inputData] = 1
   \<and> isMuted (capture_run createPcmBlob connected_session [ToggleMute])
   \<and> sent_audio (effects connected_session) = []
   \<and> sent_audio (effects (capture_run createPcmBlob connected_session
        [ToggleMute, Capture inputData])) = [createPcmBlob inputData]"
  by (simp add: connected_session_eq initial_def toggleMute_def onaudioprocess_def)

subsection \<open>Interruption\<close>

text \<open>
  Claim C3. When the handler has processed a message carrying \<^verbatim>\<open>interrupted\<close>, the set of
  active sources is empty, \<^verbatim>\<open>nextStartTime\<close> is 0 and the output accumulation is empty;
  every source that was active before the message, and every source the message itself
  started, has been stopped; the transcript from before is still there as a prefix, and
  is the whole transcript unless the same message also completed a turn.
\<close>

theorem interrupted_clears:
  assumes "interrupted msg" and "onMessage dec now s msg = Resolved s'"
  shows "sourcesRef s' = [] \<and> nextStartTimeRef s' = 0 \<and> currentOutputRef s' = []
       \<and> (\<forall>src \<in> set (sourcesRef s). StopSource src \<in> set (new_effects s s'))
       \<and> (\<forall>src t. StartSource src t \<in> set (new_effects s s')
             \<longrightarrow> StopSource src \<in> set (new_effects s s'))
       \<and> take (length (transcript s)) (transcript s') = transcript s
       \<and> (\<not> turnComplete msg \<longrightarrow> transcript s' = transcript s)"
proof -
  from assms(2) obtain s1 where a: "handleAudio dec now s msg = Resolved s1"
    and s': "s' = handleInterrupted msg (handleTurnComplete msg
            (handleInputTranscription msg (handleOutputTranscription msg s1)))"
    by (rule onMessage_Resolved)
  let ?s3 = "handleInputTranscription msg (handleOutputTranscription msg s1)"
  let ?s4 = "handleTurnComplete msg ?s3"
  from handleAudio_sources(2)[OF a] obtain es where es: "effects s1 = effects s @ es"
    and started: "\<forall>src t. StartSource src t \<in> set es \<longrightarrow> src \<in> set (sourcesRef s1)" by blast
  have new: "new_effects s s' = es @ map StopSource (sourcesRef s1)"
    unfolding s' new_effects_def using assms(1) es
    by (simp add: handleInterrupted_def transcription_frame)
  have 1: "sourcesRef s' = [] \<and> nextStartTimeRef s' = 0 \<and> currentOutputRef s' = []"
    unfolding s' using assms(1) by (simp add: handleInterrupted_def)
  have 2: "\<forall>src \<in> set (sourcesRef s). StopSource src \<in> set (new_effects s s')"
    using handleAudio_sources(1)[OF a] new by auto
  have 3: "\<forall>src t. StartSource src t \<in> set (new_effects s s')
             \<longrightarrow> StopSource src \<in> set (new_effects s s')"
    using started new by auto
  have t3: "transcript ?s3 = transcript s" by (rule transcription_accs(3)[OF a])
  have t': "transcript s' = transcript ?s4"
    unfolding s' by (simp add: handleInterrupted_def)
  have 4: "take (length (transcript s)) (transcript s') = transcript s"
    using handleTurnComplete_transcript(1)[of ?s3 msg] t3 t' by simp
  have 5: "\<not> turnComplete msg \<longrightarrow> transcript s' = transcript s"
    using handleTurnComplete_transcript(2)[of msg ?s3] t3 t' by simp
  from 1 2 3 4 5 show ?thesis by blast
qed

text \<open>
  A first message schedules a buffer and brings output text; a second one schedules
  another buffer and carries \<^verbatim>\<open>interrupted\<close>. Afterwards no source is active and the
  first buffer's source has been stopped.
\<close>

theorem interrupted_clears_witness:
  "interrupted \<lparr> inlineData = Some [0x41], outputTranscription = None, inputTranscription = None,
       turnComplete = False, interrupted = True \<rparr>
   \<and> sourcesRef (state_of (onMessage example_decodeAudio 0 initial
        \<lparr> inlineData = Some [0x41], outputTranscription = Some [0x4F], inputTranscription = None,
          turnComplete = False, interrupted = False \<rparr>))
      = [SourceNode 0 \<lparr> buf_length = 12000, buf_sampleRate = 24000 \<rparr>]
   \<and> sourcesRef (state_of (onMessage example_decodeAudio 1
        (state_of (onMessage example_decodeAudio 0 initial
          \<lparr> inlineData = Some [0x41], outputTranscription = Some [0x4F], inputTranscription = None,
            turnComplete = False, interrupted = False \<rparr>))
        \<lparr> inlineData = Some [0x41], outputTranscription = None, inputTranscription = None,
          turnComplete = False, interrupted = True \<rparr>)) = []
   \<and> StopSource (SourceNode 0 \<lparr> buf_length = 12000, buf_sampleRate = 24000 \<rparr>)
        \<in> set (effects (state_of (onMessage example_decodeAudio 1
          (state_of (onMessage example_decodeAudio 0 initial
            \<lparr> inlineData = Some [0x41], outputTranscription = Some [0x4F], inputTranscription = None,
              turnComplete = False, interrupted = False \<rparr>))
          \<lparr> inlineData = Some [0x41], outputTranscription = None, inputTranscription = None,
            turnComplete = False, interrupted = True \<rparr>)))"
proof -
  let ?m1 = "\<lparr> inlineData = Some [0x41], outputTranscription = Some [0x4F], inputTranscription = None,
       turnComplete = False, interrupted = False \<rparr>"
  let ?m2 = "\<lparr> inlineData = Some [0x41], outputTranscription = None, inputTranscription = None,
       turnComplete = False, interrupted = True \<rparr>"
  let ?s = "state_of (onMessage example_decodeAudio 0 initial ?m1)"
  have src: "sourcesRef ?s = [SourceNode 0 \<lparr> buf_length = 12000, buf_sampleRate = 24000 \<rparr>]"
    by (simp add: handler_defs example_decodeAudio_def initial_def set_add_def)
  have r: "onMessage example_decodeAudio 1 ?s ?m2
             = Resolved (state_of (onMessage example_decodeAudio 1 ?s ?m2))"
    by (simp add: handler_defs example_decodeAudio_def)
  have i: "interrupted ?m2" by simp
  from interrupted_clears[OF i r] src show ?thesis
    by (auto simp: new_effects_def dest: in_set_dropD)
qed

subsection \<open>Transcript reconstruction\<close>

text \<open>
  Claim C4. Start with both accumulations empty, let partial deltas of one direction
  arrive in order, then a turn-complete. The transcript gains nothing when the
  concatenation of the deltas is empty or all white space, and else exactly one record,
  of that direction's role, whose text is the trimmed concatenation. This holds for the
  input direction and for the output direction.
\<close>

theorem transcript_reconstruction:
  assumes "currentInputRef s = []" and "currentOutputRef s = []"
  shows "transcript (onMessages dec s
            (map (\<lambda>(now, t). (now, input_delta t)) ds @ [(end, turn_complete_event)]))
           = transcript s @ finalized User (concat (map snd ds))
       \<and> transcript (onMessages dec s
            (map (\<lambda>(now, t). (now, output_delta t)) ds @ [(end, turn_complete_event)]))
           = transcript s @ finalized Model (concat (map snd ds))"
proof
  show "transcript (onMessages dec s
            (map (\<lambda>(now, t). (now, input_delta t)) ds @ [(end, turn_complete_event)]))
           = transcript s @ finalized User (concat (map snd ds))"
    using assms by (simp add: onMessages_append input_deltas_acc state_of_turn_complete finalized_def)
  show "transcript (onMessages dec s
            (map (\<lambda>(now, t). (now, output_delta t)) ds @ [(end, turn_complete_event)]))
           = transcript s @ finalized Model (concat (map snd ds))"
    using assms output_deltas_acc[of dec s ds]
    by (simp add: onMessages_append state_of_turn_complete finalized_def)
qed

text \<open>
  Two output deltas followed by a turn-complete give one agent message. The first delta
  is a space and \<^verbatim>\<open>Ol\<close>; the second is the code unit \<^verbatim>\<open>0xE1\<close> (a with acute), then
  \<^verbatim>\<open>, tudo bem?\<close> and a line feed. The message is their concatenation without the
  space in front and the line feed at the end.
\<close>

theorem transcript_reconstruction_witness:
  "currentInputRef initial = [] \<and> currentOutputRef initial = []
   \<and> transcript (onMessages example_decodeAudio initial
        (map (\<lambda>(now, t). (now, output_delta t))
           [(0, [0x20, 0x4F, 0x6C]),
            (1, [0xE1, 0x2C, 0x20, 0x74, 0x75, 0x64, 0x6F, 0x20, 0x62, 0x65, 0x6D, 0x3F, 0x0A])]
         @ [(2, turn_complete_event)]))
     = [\<lparr> item_role = Model,
          item_text = [0x4F, 0x6C, 0xE1, 0x2C, 0x20, 0x74, 0x75, 0x64, 0x6F, 0x20, 0x62, 0x65, 0x6D, 0x3F] \<rparr>]"
proof -
  have i: "currentInputRef initial = []" and o: "currentOutputRef initial = []"
    by (simp_all add: initial_def)
  have t: "transcript initial = []" by (simp add: initial_def)
  from transcript_reconstruction[OF i o, of example_decodeAudio
      "[(0, [0x20, 0x4F, 0x6C]),
        (1, [0xE1, 0x2C, 0x20, 0x74, 0x75, 0x64, 0x6F, 0x20, 0x62, 0x65, 0x6D, 0x3F, 0x0A])]" 2]
  show ?thesis
    by (simp add: i o t finalized_def trim_def isWhiteSpace_def)
qed

subsection \<open>Connecting and tearing down\<close>

text \<open>
  Claim C5, evaluated on the code. When the microphone is refused on a fresh component,
  \<^verbatim>\<open>startSession\<close> ends in \<^verbatim>\<open>disconnected\<close>, and both audio contexts it created are
  still open, the input one still held by \<^verbatim>\<open>audioContextRef\<close>. When \<^verbatim>\<open>connectLive\<close>
  throws, it ends in \<^verbatim>\<open>disconnected\<close> as well, the microphone stream is still held by
  \<^verbatim>\<open>streamRef\<close> and has not been stopped, and both contexts are open.
\<close>

theorem failed_connect_leaks:
  "status (startSession MicrophoneRefused initial) = Disconnected
   \<and> audioContextRef (startSession MicrophoneRefused initial) = Some 0
   \<and> outputCtx (startSession MicrophoneRefused initial) = Some 1
   \<and> open_contexts (effects (startSession MicrophoneRefused initial)) = [0, 1]
   \<and> status (startSession ConnectThrows initial) = Disconnected
   \<and> streamRef (startSession ConnectThrows initial) = Some 2
   \<and> release_count 2 (effects (startSession ConnectThrows initial)) = 0
   \<and> open_contexts (effects (startSession ConnectThrows initial)) = [0, 1]"
  by (simp add: startSession_def initial_def Let_def open_contexts_def release_count_def)

text \<open>
  Claim C6, evaluated on the code. On the connected session the output context is the
  context 1. Teardown stops the microphone stream, disconnects the processor and the
  source node and closes context 0, the input context; the output context stays open.
\<close>

theorem teardown_leaves_output_context:
  "outputCtx connected_session = Some 1
   \<and> new_effects connected_session (cleanup connected_session)
        = [StopTracks 2, DisconnectNode 5, DisconnectNode 4, CloseContext 0]
   \<and> status (cleanup connected_session) = Disconnected
   \<and> open_contexts (effects (cleanup connected_session)) = [1]"
  by (simp add: cleanup_eq teardown_effects_def new_effects_def open_contexts_def
      connected_session_eq initial_def)

text \<open>
  Teardown and the handles in the refs. In a state whose refs hold distinct handles,
  teardown run twice leaves the state that teardown run once leaves, effects included.
  That state is \<^verbatim>\<open>disconnected\<close> and its refs hold no handle. Over both runs, every
  handle the refs held is released exactly once and no other handle is released. The refs
  of the mounted component hold distinct handles, and every handler keeps them distinct
  (the lemmas on \<open>handles_fresh\<close>).
\<close>

lemma cleanup_releases_held_once:
  assumes "distinct (held s)"
  shows "cleanup (cleanup s) = cleanup s \<and> status (cleanup s) = Disconnected
       \<and> held (cleanup s) = []
       \<and> (\<forall>h. release_count h (new_effects s (cleanup (cleanup s)))
               = (if h \<in> set (held s) then 1 else 0))"
proof -
  have "new_effects s (cleanup (cleanup s)) = teardown_effects s"
    by (simp add: cleanup_idem new_effects_def) (simp add: cleanup_eq)
  then have "\<forall>h. release_count h (new_effects s (cleanup (cleanup s)))
               = (if h \<in> set (held s) then 1 else 0)"
    using assms
    by (simp add: release_count_map releases_teardown count_list_map_Some count_list_distinct)
  moreover have "status (cleanup s) = Disconnected" "held (cleanup s) = []"
    by (simp_all add: cleanup_eq held_def)
  ultimately show ?thesis by (simp add: cleanup_idem)
qed

text \<open>
  Claim C7, evaluated on the code. On the connected session the output context is the
  context 1 and the transport session is 3. After two teardowns in succession the output
  context has never been released and is still open, and \<^verbatim>\<open>sessionPromiseRef\<close> still
  holds the session, which nothing has closed. And after a refused microphone the
  component is \<^verbatim>\<open>disconnected\<close>, yet one teardown there is not a no-op: it closes the
  input context 0 that \<^verbatim>\<open>startSession\<close> left in \<^verbatim>\<open>audioContextRef\<close>.
\<close>

theorem teardown_misses_handles:
  "outputCtx connected_session = Some 1
   \<and> sessionPromiseRef connected_session = Some 3
   \<and> release_count 1 (effects (cleanup (cleanup connected_session))) = 0
   \<and> open_contexts (effects (cleanup (cleanup connected_session))) = [1]
   \<and> sessionPromiseRef (cleanup (cleanup connected_session)) = Some 3
   \<and> new_effects connected_session (cleanup (cleanup connected_session))
        = [StopTracks 2, DisconnectNode 5, DisconnectNode 4, CloseContext 0]
   \<and> status (startSession MicrophoneRefused initial) = Disconnected
   \<and> new_effects (startSession MicrophoneRefused initial)
        (cleanup (startSession MicrophoneRefused initial)) = [CloseContext 0]
   \<and> audioContextRef (startSession MicrophoneRefused initial) = Some 0
   \<and> audioContextRef (cleanup (startSession MicrophoneRefused initial)) = None"
  by (simp add: cleanup_idem)
     (simp add: cleanup_eq teardown_effects_def new_effects_def open_contexts_def
        release_count_def connected_session_eq initial_def startSession_def Let_def)

subsection \<open>Malformed audio\<close>

text \<open>
  What a decoding failure does. When the chunk of a message fails to decode, the handler
  stops there: its promise rejects, and the state differs from the one before the message
  only in \<^verbatim>\<open>nextStartTime\<close>, raised to the maximum of itself and the clock. The messages
  after it are processed from that state.
\<close>

lemma onMessage_decode_failure:
  assumes "inlineData msg = Some base64Audio" and "base64Audio \<noteq> []"
    and "dec base64Audio = None"
  shows "onMessage dec now s msg = Rejected (s\<lparr> nextStartTimeRef := max (nextStartTimeRef s) now \<rparr>)
       \<and> onMessages dec s ((now, msg) # rest)
           = onMessages dec (s\<lparr> nextStartTimeRef := max (nextStartTimeRef s) now \<rparr>) rest"
  using assms by (simp add: onMessage_def handleAudio_def)

text \<open>
  Claim C8, evaluated on the code. One buffer is playing. A message brings a malformed
  chunk together with the input delta \<^verbatim>\<open>"oi"\<close> and \<^verbatim>\<open>interrupted\<close>. The handler throws at
  the decoding: the delta is not accumulated and the playing source is neither stopped
  nor taken out of the active set. The same message without the chunk accumulates the
  delta, stops the source and empties the set.
\<close>

theorem decode_failure_drops_message:
  "example_decodeAudio [0x21] = None
   \<and> sourcesRef (state_of (onMessage example_decodeAudio 0 initial (audio_chunk [0x41])))
       = [SourceNode 0 \<lparr> buf_length = 12000, buf_sampleRate = 24000 \<rparr>]
   \<and> currentInputRef (state_of (onMessage example_decodeAudio 1
        (state_of (onMessage example_decodeAudio 0 initial (audio_chunk [0x41])))
        \<lparr> inlineData = Some [0x21], outputTranscription = None,
          inputTranscription = Some [0x6F, 0x69], turnComplete = False, interrupted = True \<rparr>)) = []
   \<and> sourcesRef (state_of (onMessage example_decodeAudio 1
        (state_of (onMessage example_decodeAudio 0 initial (audio_chunk [0x41])))
        \<lparr> inlineData = Some [0x21], outputTranscription = None,
          inputTranscription = Some [0x6F, 0x69], turnComplete = False, interrupted = True \<rparr>))
       = [SourceNode 0 \<lparr> buf_length = 12000, buf_sampleRate = 24000 \<rparr>]
   \<and> stopped (new_effects initial (state_of (onMessage example_decodeAudio 1
        (state_of (onMessage example_decodeAudio 0 initial (audio_chunk [0x41])))
        \<lparr> inlineData = Some [0x21], outputTranscription = None,
          inputTranscription = Some [0x6F, 0x69], turnComplete = False, interrupted = True \<rparr>))) = []
   \<and> currentInputRef (state_of (onMessage example_decodeAudio 1
        (state_of (onMessage example_decodeAudio 0 initial (audio_chunk [0x41])))
        \<lparr> inlineData = None, outputTranscription = None,
          inputTranscription = Some [0x6F, 0x69], turnComplete = False, interrupted = True \<rparr>))
       = [0x6F, 0x69]
   \<and> sourcesRef (state_of (onMessage example_decodeAudio 1
        (state_of (onMessage example_decodeAudio 0 initial (audio_chunk [0x41])))
        \<lparr> inlineData = None, outputTranscription = None,
          inputTranscription = Some [0x6F, 0x69], turnComplete = False, interrupted = True \<rparr>)) = []
   \<and> stopped (new_effects initial (state_of (onMessage example_decodeAudio 1
        (state_of (onMessage example_decodeAudio 0 initial (audio_chunk [0x41])))
        \<lparr> inlineData = None, outputTranscription = None,
          inputTranscription = Some [0x6F, 0x69], turnComplete = False, interrupted = True \<rparr>)))
       = [SourceNode 0 \<lparr> buf_length = 12000, buf_sampleRate = 24000 \<rparr>]"
  by (simp add: handler_defs example_decodeAudio_def audio_chunk_def initial_def set_add_def
      new_effects_def)

subsection \<open>Turn completion\<close>

text \<open>
  A turn-complete whose handler runs to its end. The transcript has gained, in this
  order, at most one user record, made of the input accumulation with the message's own
  input delta appended, and at most one agent record, made likewise of the output
  accumulation; a record is made only of an accumulation that is not empty or all white
  space. Both accumulations are empty afterwards. With nothing accumulated and no delta
  in the message, the transcript is unchanged.
\<close>

lemma turn_complete_resolved:
  assumes "turnComplete msg" and "onMessage dec now s msg = Resolved s'"
  shows "transcript s' = transcript s
           @ finalized User (currentInputRef s @ text_of (inputTranscription msg))
           @ finalized Model (currentOutputRef s @ text_of (outputTranscription msg))
       \<and> currentInputRef s' = [] \<and> currentOutputRef s' = []
       \<and> (currentInputRef s = [] \<and> currentOutputRef s = [] \<and> inputTranscription msg = None
            \<and> outputTranscription msg = None \<longrightarrow> transcript s' = transcript s)"
proof -
  from assms(2) obtain s1 where a: "handleAudio dec now s msg = Resolved s1"
    and s': "s' = handleInterrupted msg (handleTurnComplete msg
            (handleInputTranscription msg (handleOutputTranscription msg s1)))"
    by (rule onMessage_Resolved)
  have "transcript s' = transcript s
           @ finalized User (currentInputRef s @ text_of (inputTranscription msg))
           @ finalized Model (currentOutputRef s @ text_of (outputTranscription msg))
       \<and> currentInputRef s' = [] \<and> currentOutputRef s' = []"
    unfolding s' using assms(1) transcription_accs[OF a]
    by (simp add: handleInterrupted_def handleTurnComplete_def Let_def newItems_finalized
        trim_empty_iff finalized_def)
  then show ?thesis by (simp add: finalized_def text_of_def)
qed

text \<open>
  Claim C9, evaluated on the code. The accumulated input text is \<^verbatim>\<open>"oi"\<close>, and a message
  brings turn-complete together with a malformed chunk. The handler throws at the
  decoding, before it reaches the turn-complete: no record is appended and the input
  accumulation is still \<^verbatim>\<open>"oi"\<close>, not empty. The same message without the chunk
  finalizes the user's turn and empties the accumulation.
\<close>

theorem turn_complete_lost:
  "example_decodeAudio [0x21] = None
   \<and> transcript (state_of (onMessage example_decodeAudio 0
        (initial\<lparr> currentInputRef := [0x6F, 0x69] \<rparr>)
        \<lparr> inlineData = Some [0x21], outputTranscription = None, inputTranscription = None,
          turnComplete = True, interrupted = False \<rparr>)) = []
   \<and> currentInputRef (state_of (onMessage example_decodeAudio 0
        (initial\<lparr> currentInputRef := [0x6F, 0x69] \<rparr>)
        \<lparr> inlineData = Some [0x21], outputTranscription = None, inputTranscription = None,
          turnComplete = True, interrupted = False \<rparr>)) = [0x6F, 0x69]
   \<and> transcript (state_of (onMessage example_decodeAudio 0
        (initial\<lparr> currentInputRef := [0x6F, 0x69] \<rparr>)
        \<lparr> inlineData = None, outputTranscription = None, inputTranscription = None,
          turnComplete = True, interrupted = False \<rparr>))
      = [\<lparr> item_role = User, item_text = [0x6F, 0x69] \<rparr>]
   \<and> currentInputRef (state_of (onMessage example_decodeAudio 0
        (initial\<lparr> currentInputRef := [0x6F, 0x69] \<rparr>)
        \<lparr> inlineData = None, outputTranscription = None, inputTranscription = None,
          turnComplete = True, interrupted = False \<rparr>)) = []"
  by (simp add: handler_defs example_decodeAudio_def initial_def newItems_def trim_def
      isWhiteSpace_def)

subsection \<open>What an interruption leaves alone\<close>

text \<open>
  Claim C10. When the handler has processed a message that carries \<^verbatim>\<open>interrupted\<close> and
  neither an input delta nor turn-complete, the input accumulation, the transcript, the
  connection status and flag, the mute flag, the screen-sharing flag, the screen stream
  and the capture timer are what they were.
\<close>

theorem interrupted_frame:
  assumes "interrupted msg" and "\<not> turnComplete msg" and "inputTranscription msg = None"
    and "onMessage dec now s msg = Resolved s'"
  shows "currentInputRef s' = currentInputRef s \<and> transcript s' = transcript s
       \<and> status s' = status s \<and> isConnected s' = isConnected s \<and> isMuted s' = isMuted s
       \<and> isScreenSharing s' = isScreenSharing s \<and> videoStreamRef s' = videoStreamRef s
       \<and> videoIntervalRef s' = videoIntervalRef s"
proof -
  from assms(4) obtain s1 where a: "handleAudio dec now s msg = Resolved s1"
    and s': "s' = handleInterrupted msg (handleTurnComplete msg
            (handleInputTranscription msg (handleOutputTranscription msg s1)))"
    by (rule onMessage_Resolved)
  show ?thesis
    unfolding s' using assms(1-3) handleAudio_frame[OF a]
    by (simp add: handleInterrupted_def handleTurnComplete_def handleInputTranscription_def
        handleOutputTranscription_def split: option.splits)
qed

text \<open>
  An interruption that arrives with output text while \<^verbatim>\<open>"oi"\<close> is accumulated as input
  and the microphone is muted: the input text and the mute flag stay.
\<close>

theorem interrupted_frame_witness:
  "interrupted \<lparr> inlineData = None, outputTranscription = Some [0x4F], inputTranscription = None,
       turnComplete = False, interrupted = True \<rparr>
   \<and> currentInputRef (state_of (onMessage example_decodeAudio 0
        (initial\<lparr> isMuted := True, currentInputRef := [0x6F, 0x69] \<rparr>)
        \<lparr> inlineData = None, outputTranscription = Some [0x4F], inputTranscription = None,
          turnComplete = False, interrupted = True \<rparr>)) = [0x6F, 0x69]
   \<and> isMuted (state_of (onMessage example_decodeAudio 0
        (initial\<lparr> isMuted := True, currentInputRef := [0x6F, 0x69] \<rparr>)
        \<lparr> inlineData = None, outputTranscription = Some [0x4F], inputTranscription = None,
          turnComplete = False, interrupted = True \<rparr>))"
proof -
  let ?s = "initial\<lparr> isMuted := True, currentInputRef := [0x6F, 0x69] \<rparr>"
  let ?m = "\<lparr> inlineData = None, outputTranscription = Some [0x4F], inputTranscription = None,
       turnComplete = False, interrupted = True \<rparr>"
  have r: "onMessage example_decodeAudio 0 ?s ?m
             = Resolved (state_of (onMessage example_decodeAudio 0 ?s ?m))"
    by (simp add: handler_defs)
  have i: "interrupted ?m" and t: "\<not> turnComplete ?m" and n: "inputTranscription ?m = None"
    by simp_all
  from interrupted_frame[OF i t n r] show ?thesis by simp
qed

end
